theory Spec2Isabelle
  imports Complex_Main
begin

section \<open>Tensor entries\<close>

text \<open>
  The program computes on float32 tensors. An entry is a real number or one of the three
  IEEE special values, so that \<open>log 0 = -inf\<close>, \<open>x / 0\<close> and \<open>0 * inf = nan\<close> behave as
  torch computes them; the sign of zero is not modelled. The operations \<open>fadd\<close>, \<open>fmul\<close>,
  \<open>fdiv\<close>, \<open>flog\<close> and \<open>fexp\<close> below give the exact result on finite entries; the float32
  operations of the program round it (\<open>fadd32\<close>, \<open>fmul32\<close>, \<open>fdiv32\<close> further down).
\<close>

datatype flt = Fin real | PInf | NInf | NaN

fun fadd :: "flt \<Rightarrow> flt \<Rightarrow> flt" where
  "fadd NaN y = NaN"
| "fadd x NaN = NaN"
| "fadd (Fin a) (Fin b) = Fin (a + b)"
| "fadd (Fin a) PInf = PInf"
| "fadd (Fin a) NInf = NInf"
| "fadd PInf (Fin b) = PInf"
| "fadd NInf (Fin b) = NInf"
| "fadd PInf PInf = PInf"
| "fadd NInf NInf = NInf"
| "fadd PInf NInf = NaN"
| "fadd NInf PInf = NaN"

fun fneg :: "flt \<Rightarrow> flt" where
  "fneg (Fin a) = Fin (- a)"
| "fneg PInf = NInf"
| "fneg NInf = PInf"
| "fneg NaN = NaN"

definition fsub :: "flt \<Rightarrow> flt \<Rightarrow> flt" where
  "fsub x y = fadd x (fneg y)"

fun fmul :: "flt \<Rightarrow> flt \<Rightarrow> flt" where
  "fmul NaN y = NaN"
| "fmul x NaN = NaN"
| "fmul (Fin a) (Fin b) = Fin (a * b)"
| "fmul (Fin a) PInf = (if a = 0 then NaN else if 0 < a then PInf else NInf)"
| "fmul (Fin a) NInf = (if a = 0 then NaN else if 0 < a then NInf else PInf)"
| "fmul PInf (Fin b) = (if b = 0 then NaN else if 0 < b then PInf else NInf)"
| "fmul NInf (Fin b) = (if b = 0 then NaN else if 0 < b then NInf else PInf)"
| "fmul PInf PInf = PInf"
| "fmul NInf NInf = PInf"
| "fmul PInf NInf = NInf"
| "fmul NInf PInf = NInf"

fun fdiv :: "flt \<Rightarrow> flt \<Rightarrow> flt" where
  "fdiv NaN y = NaN"
| "fdiv x NaN = NaN"
| "fdiv (Fin a) (Fin b) =
     (if b = 0 then (if a = 0 then NaN else if 0 < a then PInf else NInf) else Fin (a / b))"
| "fdiv (Fin a) PInf = Fin 0"
| "fdiv (Fin a) NInf = Fin 0"
| "fdiv PInf (Fin b) = (if b < 0 then NInf else PInf)"
| "fdiv NInf (Fin b) = (if b < 0 then PInf else NInf)"
| "fdiv PInf PInf = NaN"
| "fdiv NInf NInf = NaN"
| "fdiv PInf NInf = NaN"
| "fdiv NInf PInf = NaN"

fun flog :: "flt \<Rightarrow> flt" where
  "flog (Fin a) = (if a < 0 then NaN else if a = 0 then NInf else Fin (ln a))"
| "flog PInf = PInf"
| "flog NInf = NaN"
| "flog NaN = NaN"

fun fexp :: "flt \<Rightarrow> flt" where
  "fexp (Fin a) = Fin (exp a)"
| "fexp PInf = PInf"
| "fexp NInf = Fin 0"
| "fexp NaN = NaN"

text \<open>
  The order torch's reductions \<open>max\<close> and \<open>argmax\<close> use: \<open>nan\<close> counts as the largest
  value, above \<open>+inf\<close>.
\<close>

fun fle :: "flt \<Rightarrow> flt \<Rightarrow> bool" where
  "fle x NaN = True"
| "fle NaN y = False"
| "fle x PInf = True"
| "fle PInf y = False"
| "fle NInf y = True"
| "fle (Fin a) NInf = False"
| "fle (Fin a) (Fin b) = (a \<le> b)"

definition fmax :: "flt \<Rightarrow> flt \<Rightarrow> flt" where
  "fmax x y = (if fle x y then y else x)"

text \<open>The exact sum of a list of entries; the empty sum is 0.\<close>

definition fsum :: "flt list \<Rightarrow> flt" where
  "fsum xs = foldr fadd xs (Fin 0)"

subsection \<open>Rounding to float32 and float64\<close>

text \<open>
  IEEE 754 rounding to nearest, ties to even, of a real number to the binary format
  with \<open>p\<close> significant bits and exponents \<open>emin..emax\<close>: the number is scaled by the
  unit in the last place of its binade (that of \<open>emin\<close> for subnormal numbers), rounded to
  an integer and scaled back; a result of magnitude \<open>2 ^ (emax + 1)\<close> or more overflows to
  infinity. \<open>f32\<close> is float32 (torch's tensors), \<open>f64\<close> is float64 (Python's \<open>float\<close>).
\<close>

definition round_even :: "real \<Rightarrow> int" where
  "round_even r =
     (let f = \<lfloor>r\<rfloor>
      in if r - of_int f < 1 / 2 then f
         else if 1 / 2 < r - of_int f then f + 1
         else if even f then f else f + 1)"

definition fp_exp :: "int \<Rightarrow> real \<Rightarrow> int" where
  "fp_exp emin x = max \<lfloor>log 2 \<bar>x\<bar>\<rfloor> emin"

definition fp_round :: "nat \<Rightarrow> int \<Rightarrow> int \<Rightarrow> real \<Rightarrow> flt" where
  "fp_round p emin emax x =
     (if x = 0 then Fin 0
      else (let q = 2 powi (fp_exp emin x - (int p - 1));
                y = of_int (round_even (x / q)) * q
            in if 2 powi (emax + 1) \<le> \<bar>y\<bar> then (if 0 < x then PInf else NInf) else Fin y))"

definition f32 :: "real \<Rightarrow> flt" where
  "f32 = fp_round 24 (- 126) 127"

definition f64 :: "real \<Rightarrow> flt" where
  "f64 = fp_round 53 (- 1022) 1023"

fun to_f32 :: "flt \<Rightarrow> flt" where
  "to_f32 (Fin a) = f32 a"
| "to_f32 x = x"

fun to_f64 :: "flt \<Rightarrow> flt" where
  "to_f64 (Fin a) = f64 a"
| "to_f64 x = x"

text \<open>
  The elementwise float32 operations of torch: the exact result, rounded once (IEEE 754
  addition, multiplication and division are correctly rounded).
\<close>

definition fadd32 :: "flt \<Rightarrow> flt \<Rightarrow> flt" where
  "fadd32 x y = to_f32 (fadd x y)"

definition fmul32 :: "flt \<Rightarrow> flt \<Rightarrow> flt" where
  "fmul32 x y = to_f32 (fmul x y)"

definition fdiv32 :: "flt \<Rightarrow> flt \<Rightarrow> flt" where
  "fdiv32 x y = to_f32 (fdiv x y)"

text \<open>
  \<open>tensor.sum()\<close> of a one-dimensional float32 tensor. Torch does not fix the order in
  which a reduction adds; the model adds in index order. Whenever every partial sum is
  representable, as for counts that add up to at most \<open>2 ^ 24\<close>, every order gives this
  result.
\<close>

definition fsum32 :: "flt list \<Rightarrow> flt" where
  "fsum32 xs = foldr fadd32 xs (Fin 0)"

section \<open>Errors\<close>

text \<open>
  The exceptions the program can raise. \<open>ValueError\<close> and \<open>Exception\<close> are the two
  the source raises itself, both for a model that is not trained; \<open>KeyError\<close> and
  \<open>IndexError\<close> come from Python's containers and from tensor indexing, \<open>RuntimeError\<close>
  from torch (shapes that do not broadcast, a reduction over an empty tensor).
\<close>

datatype error = ValueError | Exception | KeyError | IndexError | RuntimeError

section \<open>data\_processing.py\<close>

text \<open>
  Modelled from the spec: \<open>utils.SentimentExample\<close> is imported by the source and not
  part of it; the spec gives an example as an ordered sequence of word tokens and an
  integer label.
\<close>

record SentimentExample =
  words :: "string list"
  label :: int

text \<open>
  A Python \<open>Dict[str, int]\<close> in insertion order: an association list whose keys are
  distinct.
\<close>

type_synonym vocab = "(string \<times> int) list"

definition build_vocab_word :: "string \<Rightarrow> vocab \<times> int \<Rightarrow> vocab \<times> int" where
  "build_vocab_word word s =
     (case s of (vocab, index) \<Rightarrow>
        if map_of vocab word = None then (vocab @ [(word, index)], index + 1)
        else (vocab, index))"

definition build_vocab :: "SentimentExample list \<Rightarrow> vocab" where
  "build_vocab examples =
     fst (fold (\<lambda>example. fold build_vocab_word (words example)) examples ([], 0))"

text \<open>
  Indexing a tensor of length \<open>n\<close> with a Python integer: a negative index counts from
  the end, an index out of range raises \<open>IndexError\<close>.
\<close>

definition tensor_index :: "nat \<Rightarrow> int \<Rightarrow> error + nat" where
  "tensor_index n i =
     (let j = (if i < 0 then int n + i else i)
      in if 0 \<le> j \<and> j < int n then Inr (nat j) else Inl IndexError)"

fun bow_loop :: "string list \<Rightarrow> vocab \<Rightarrow> bool \<Rightarrow> flt list \<Rightarrow> error + flt list" where
  "bow_loop [] vocab binary bow_vector = Inr bow_vector"
| "bow_loop (word # text) vocab binary bow_vector =
     (case map_of vocab word of
        None \<Rightarrow> bow_loop text vocab binary bow_vector
      | Some index \<Rightarrow>
          (case tensor_index (length bow_vector) index of
             Inl e \<Rightarrow> Inl e
           | Inr i \<Rightarrow>
               bow_loop text vocab binary
                 (bow_vector[i := (if binary then Fin 1 else fadd32 (bow_vector ! i) (Fin 1))])))"

definition bag_of_words :: "string list \<Rightarrow> vocab \<Rightarrow> bool \<Rightarrow> error + flt list" where
  "bag_of_words text vocab binary =
     bow_loop text vocab binary (replicate (length vocab) (Fin 0))"

text \<open>
  A vocabulary of the data model: the words are distinct and their indices are distinct
  positions of the feature vector, \<open>0 \<le> i < |vocab|\<close>.
\<close>

definition wf_vocab :: "vocab \<Rightarrow> bool" where
  "wf_vocab vocab =
     (distinct (map fst vocab) \<and> distinct (map snd vocab) \<and>
      list_all (\<lambda>i. 0 \<le> i \<and> i < int (length vocab)) (map snd vocab))"

section \<open>naive\_bayes.py\<close>

subsection \<open>Tensors and the torch operations the classifier calls\<close>

text \<open>
  A two-dimensional tensor of shape \<open>[length rows, ncols]\<close>. Every row of a tensor has
  \<open>ncols\<close> entries (\<open>wf_matrix\<close>); the number of columns is kept apart because a tensor
  with no rows still has a second dimension.
\<close>

record matrix =
  ncols :: nat
  rows :: "flt list list"

definition wf_matrix :: "matrix \<Rightarrow> bool" where
  "wf_matrix features = list_all (\<lambda>r. length r = ncols features) (rows features)"

text \<open>
  \<open>torch.bincount\<close> on a tensor of non-negative integers: one bin per value up to the
  largest, each counting the occurrences of its value; the empty tensor gives no bins.
  Labels are class indices, so a label vector is a list of naturals.
\<close>

definition bincount :: "nat list \<Rightarrow> nat list" where
  "bincount input =
     (if input = [] then []
      else fold (\<lambda>x bins. bins[x := bins ! x + 1]) input
             (replicate (Suc (Max (set input))) 0))"

text \<open>\<open>torch.max\<close> of a one-dimensional tensor raises on the empty tensor.\<close>

definition torch_max :: "nat list \<Rightarrow> error + nat" where
  "torch_max labels = (if labels = [] then Inl RuntimeError else Inr (Max (set labels)))"

text \<open>
  \<open>features[mask]\<close> with a boolean mask over the first dimension: the rows where the mask
  holds, in order; a mask of another length raises \<open>IndexError\<close>.
\<close>

definition mask_rows :: "matrix \<Rightarrow> bool list \<Rightarrow> error + flt list list" where
  "mask_rows features bmask =
     (if length bmask \<noteq> length (rows features) then Inl IndexError
      else Inr (map fst (filter snd (zip (rows features) bmask))))"

text \<open>\<open>t.sum(dim=0)\<close> of a tensor of shape \<open>[k, n]\<close>: the \<open>n\<close> column sums.\<close>

definition sum_dim0 :: "nat \<Rightarrow> flt list list \<Rightarrow> flt list" where
  "sum_dim0 n rs = map (\<lambda>w. fsum32 (map (\<lambda>r. r ! w) rs)) [0..<n]"

text \<open>
  The elementwise product of two one-dimensional tensors. Torch broadcasts a tensor of
  length 1 to the other's length and raises when the lengths differ otherwise.
\<close>

definition broadcast_mul :: "flt list \<Rightarrow> flt list \<Rightarrow> error + flt list" where
  "broadcast_mul xs ys =
     (if length xs = length ys then Inr (map2 fmul xs ys)
      else if length xs = 1 then Inr (map (fmul (hd xs)) ys)
      else if length ys = 1 then Inr (map (\<lambda>x. fmul x (hd ys)) xs)
      else Inl RuntimeError)"

text \<open>
  \<open>torch.argmax\<close>: the index of the largest entry, the first one among equal entries,
  \<open>nan\<close> counting as largest; it raises on the empty tensor.
\<close>

fun argmax_loop :: "flt list \<Rightarrow> nat \<Rightarrow> nat \<Rightarrow> flt \<Rightarrow> nat" where
  "argmax_loop [] i best_i best = best_i"
| "argmax_loop (x # xs) i best_i best =
     (if fle x best then argmax_loop xs (Suc i) best_i best
      else argmax_loop xs (Suc i) i x)"

definition argmax :: "flt list \<Rightarrow> error + nat" where
  "argmax xs = (case xs of [] \<Rightarrow> Inl RuntimeError | x # rest \<Rightarrow> Inr (argmax_loop rest 1 0 x))"

text \<open>\<open>torch.nn.functional.softmax\<close> over a one-dimensional tensor.\<close>

definition softmax :: "flt list \<Rightarrow> flt list" where
  "softmax xs =
     (case xs of
        [] \<Rightarrow> []
      | x # rest \<Rightarrow>
          (let m = fold fmax rest x;
               es = map (\<lambda>y. fexp (fsub y m)) xs;
               s = fsum es
           in map (\<lambda>e. fdiv e s) es))"

subsection \<open>The classifier\<close>

text \<open>
  The three attributes of a \<open>NaiveBayes\<close> object; \<open>None\<close> is Python's \<open>None\<close>. The two
  dictionaries are keyed by class index and kept in insertion order.
\<close>

record NaiveBayes =
  class_priors :: "(nat \<times> flt) list option"
  conditional_probabilities :: "(nat \<times> flt list) list option"
  vocab_size :: "nat option"

definition NaiveBayes_init :: NaiveBayes where
  "NaiveBayes_init =
     \<lparr>class_priors = None, conditional_probabilities = None, vocab_size = None\<rparr>"

text \<open>
  \<open>count / num_samples\<close> divides an int64 tensor by a Python \<open>int\<close>: torch converts both to
  float32 and divides in float32.
\<close>

definition estimate_class_priors :: "nat list \<Rightarrow> (nat \<times> flt) list" where
  "estimate_class_priors labels =
     (let num_samples = length labels;
          class_counts = bincount labels
      in map (\<lambda>(i, count). (i, fdiv32 (f32 (real count)) (f32 (real num_samples))))
           (enumerate 0 class_counts))"

fun word_counts_loop :: "matrix \<Rightarrow> nat list \<Rightarrow> nat list \<Rightarrow> error + (nat \<times> flt list) list" where
  "word_counts_loop features labels [] = Inr []"
| "word_counts_loop features labels (c # cs) =
     (case mask_rows features (map (\<lambda>l. l = c) labels) of
        Inl e \<Rightarrow> Inl e
      | Inr class_features \<Rightarrow>
          (case word_counts_loop features labels cs of
             Inl e \<Rightarrow> Inl e
           | Inr word_counts \<Rightarrow>
               Inr ((c, sum_dim0 (ncols features) class_features) # word_counts)))"

text \<open>
  \<open>delta\<close> is a Python \<open>float\<close>: \<open>delta * vocab_size\<close> is a float64 product, and a Python
  number that meets a float32 tensor in \<open>+\<close> is converted to float32 first. The features
  are a float32 tensor, as \<open>bag_of_words\<close> returns them.
\<close>

definition estimate_conditional_probabilities ::
  "matrix \<Rightarrow> nat list \<Rightarrow> flt \<Rightarrow> error + (nat \<times> flt list) list" where
  "estimate_conditional_probabilities features labels delta =
     (case torch_max labels of
        Inl e \<Rightarrow> Inl e
      | Inr m \<Rightarrow>
          (let num_classes = m + 1;
               vocab_size = ncols features
           in case word_counts_loop features labels [0..<num_classes] of
                Inl e \<Rightarrow> Inl e
              | Inr word_counts \<Rightarrow>
                  Inr (map (\<lambda>(c, wc).
                         (c, map (\<lambda>x. fdiv32 (fadd32 x (to_f32 delta))
                                      (fadd32 (fsum32 wc)
                                         (to_f32 (to_f64 (fmul delta (Fin (real vocab_size)))))))
                               wc))
                       word_counts)))"

text \<open>
  \<open>fit\<close> assigns the three attributes one after the other, so an exception raised while
  the conditional probabilities are estimated leaves the first two assigned. The result
  is the exception raised, if any, and the object afterwards.
\<close>

definition fit :: "NaiveBayes \<Rightarrow> matrix \<Rightarrow> nat list \<Rightarrow> flt \<Rightarrow> error option \<times> NaiveBayes" where
  "fit self features labels delta =
     (let self1 = self\<lparr>class_priors := Some (estimate_class_priors labels)\<rparr>;
          self2 = self1\<lparr>vocab_size := Some (ncols features)\<rparr>
      in case estimate_conditional_probabilities features labels delta of
           Inl e \<Rightarrow> (Some e, self2)
         | Inr cp \<Rightarrow> (None, self2\<lparr>conditional_probabilities := Some cp\<rparr>))"

text \<open>
  The float32 value of a score is not determined by the source: \<open>torch.log\<close> is not
  correctly rounded and \<open>torch.sum\<close> does not fix the order of its additions. A score is
  therefore modelled by its exact value on the stored float32 numbers, with the special
  values of \<open>log\<close>.
\<close>

fun posteriors_loop ::
  "(nat \<times> flt) list \<Rightarrow> (nat \<times> flt list) list \<Rightarrow> flt list \<Rightarrow> (nat \<rightharpoonup> flt) \<Rightarrow>
   error + (nat \<rightharpoonup> flt)" where
  "posteriors_loop [] cp feature log_posteriors = Inr log_posteriors"
| "posteriors_loop ((c, prior) # rest) cp feature log_posteriors =
     (let log_prior = flog prior
      in case map_of cp c of
           None \<Rightarrow> Inl KeyError
         | Some cond \<Rightarrow>
             (case broadcast_mul feature (map flog cond) of
                Inl e \<Rightarrow> Inl e
              | Inr product \<Rightarrow>
                  posteriors_loop rest cp feature
                    (log_posteriors(c \<mapsto> fadd log_prior (fsum product)))))"

definition estimate_class_posteriors :: "NaiveBayes \<Rightarrow> flt list \<Rightarrow> error + flt list" where
  "estimate_class_posteriors self feature =
     (case (conditional_probabilities self, class_priors self) of
        (Some cp, Some pr) \<Rightarrow>
          (case posteriors_loop pr cp feature Map.empty of
             Inl e \<Rightarrow> Inl e
           | Inr log_posteriors \<Rightarrow>
               (case log_posteriors 0 of
                  None \<Rightarrow> Inl KeyError
                | Some p0 \<Rightarrow>
                    (case log_posteriors 1 of
                       None \<Rightarrow> Inl KeyError
                     | Some p1 \<Rightarrow> Inr [p0, p1])))
      | _ \<Rightarrow> Inl ValueError)"

text \<open>Python's \<open>not d\<close> for an attribute that is \<open>None\<close> or a dictionary.\<close>

definition falsy :: "'a list option \<Rightarrow> bool" where
  "falsy d = (case d of None \<Rightarrow> True | Some kvs \<Rightarrow> kvs = [])"

definition predict :: "NaiveBayes \<Rightarrow> flt list \<Rightarrow> error + nat" where
  "predict self feature =
     (if falsy (class_priors self) \<or> falsy (conditional_probabilities self) then Inl Exception
      else case estimate_class_posteriors self feature of
             Inl e \<Rightarrow> Inl e
           | Inr log_posteriors \<Rightarrow> argmax log_posteriors)"

definition predict_proba :: "NaiveBayes \<Rightarrow> flt list \<Rightarrow> error + flt list" where
  "predict_proba self feature =
     (if falsy (class_priors self) \<or> falsy (conditional_probabilities self) then Inl Exception
      else case estimate_class_posteriors self feature of
             Inl e \<Rightarrow> Inl e
           | Inr log_posteriors \<Rightarrow> Inr (softmax log_posteriors))"

section \<open>Notions the properties are stated with\<close>

subsection \<open>Vocabularies and count vectors\<close>

text \<open>
  What the loop of \<open>bag_of_words\<close> needs of a vocabulary and a vector of length \<open>n\<close>:
  every index is a position of the vector and no two words share one.
\<close>

definition vocab_ok :: "nat \<Rightarrow> vocab \<Rightarrow> bool" where
  "vocab_ok n vocab =
     ((\<forall>t i. map_of vocab t = Some i \<longrightarrow> 0 \<le> i \<and> i < int n) \<and>
      (\<forall>t t' i. map_of vocab t = Some i \<longrightarrow> map_of vocab t' = Some i \<longrightarrow> t = t'))"

text \<open>
  A vector of non-negative integer entries, none above \<open>2 ^ 24\<close>, each 0 or 1 in binary
  mode.
\<close>

definition counts_vec :: "bool \<Rightarrow> flt list \<Rightarrow> bool" where
  "counts_vec binary v =
     (\<forall>j < length v. \<exists>k::nat. v ! j = Fin (real k) \<and> k \<le> 2 ^ 24 \<and> (binary \<longrightarrow> k \<le> 1))"

text \<open>
  The invariant of the loop of \<open>build_vocab\<close>: the counter is the size of the
  dictionary, the indices are \<open>0, 1, ...\<close> in insertion order and the words are distinct.
\<close>

definition vocab_inv :: "vocab \<times> int \<Rightarrow> bool" where
  "vocab_inv s =
     (snd s = int (length (fst s)) \<and> map snd (fst s) = map int [0..<length (fst s)] \<and>
      distinct (map fst (fst s)))"

subsection \<open>The spec's estimates\<close>

text \<open>
  \<open>the_real\<close> reads the real number of a finite entry. A count vector has entries that are
  natural numbers (\<open>is_count\<close>); \<open>matrix_total\<close> is the number of tokens a matrix of count
  vectors stands for.
\<close>

fun the_real :: "flt \<Rightarrow> real" where
  "the_real (Fin a) = a"
| "the_real x = 0"

fun is_count :: "flt \<Rightarrow> bool" where
  "is_count (Fin a) = (0 \<le> a \<and> a = of_int \<lfloor>a\<rfloor>)"
| "is_count x = False"

definition count_matrix :: "matrix \<Rightarrow> bool" where
  "count_matrix features = list_all (list_all is_count) (rows features)"

definition matrix_total :: "matrix \<Rightarrow> real" where
  "matrix_total features = (\<Sum>r\<leftarrow>rows features. \<Sum>x\<leftarrow>r. the_real x)"

text \<open>
  The spec's \<open>count(c, w)\<close>: the sum of column \<open>w\<close> of the features over the rows with
  label \<open>c\<close>; and the spec's smoothed estimate
  \<open>P(w|c) = (count(c,w) + delta) / (sum_w count(c,w) + delta * vocab_size)\<close>, each of its
  operations in the arithmetic in which the program performs it.
\<close>

definition spec_count :: "matrix \<Rightarrow> nat list \<Rightarrow> nat \<Rightarrow> nat \<Rightarrow> real" where
  "spec_count features labels c w =
     (\<Sum>i\<leftarrow>filter (\<lambda>i. labels ! i = c) [0..<length labels]. the_real (rows features ! i ! w))"


text \<open>
  What \<open>fit\<close> computes for one class: \<open>word_counts[c]\<close>, the float32 column sums of the rows
  with label \<open>c\<close>, and its smoothing; \<open>trained_cond\<close> is the dictionary of conditional
  probabilities that a successful \<open>fit\<close> is shown to store.
\<close>

definition class_word_counts :: "matrix \<Rightarrow> nat list \<Rightarrow> nat \<Rightarrow> flt list" where
  "class_word_counts features labels c =
     sum_dim0 (ncols features)
       (map fst (filter snd (zip (rows features) (map (\<lambda>l. l = c) labels))))"

definition smoothed_counts :: "flt list \<Rightarrow> flt \<Rightarrow> nat \<Rightarrow> flt list" where
  "smoothed_counts wc delta n =
     map (\<lambda>x. fdiv32 (fadd32 x (to_f32 delta))
                (fadd32 (fsum32 wc) (to_f32 (to_f64 (fmul delta (Fin (real n))))))) wc"

definition trained_cond :: "matrix \<Rightarrow> nat list \<Rightarrow> flt \<Rightarrow> (nat \<times> flt list) list" where
  "trained_cond features labels delta =
     map (\<lambda>c. (c, smoothed_counts (class_word_counts features labels c) delta (ncols features)))
       [0..<Suc (Max (set labels))]"

text \<open>
  The spec's score of one class:
  \<open>log(prior) + sum_w feature[w] * log(P(w|c))\<close>, for a feature vector and a vector of
  conditional probabilities of the same length.
\<close>

definition class_score :: "flt \<Rightarrow> flt list \<Rightarrow> flt list \<Rightarrow> flt" where
  "class_score prior cond feature = fadd (flog prior) (fsum (map2 fmul feature (map flog cond)))"

text \<open>
  The score of class \<open>c\<close> from the dictionaries a model stores: what the loop of
  \<open>estimate_class_posteriors\<close> assigns to \<open>log_posteriors[c]\<close>.
\<close>

definition stored_score :: "NaiveBayes \<Rightarrow> nat \<Rightarrow> flt list \<Rightarrow> flt" where
  "stored_score m c feature =
     class_score (the (map_of (the (class_priors m)) c))
       (the (map_of (the (conditional_probabilities m)) c)) feature"

text \<open>
  Closeness up to \<open>k\<close> roundings: \<open>y\<close> is \<open>x\<close> up to the factor \<open>(1 + 2 ^ -23) ^ k\<close>. One
  rounding to float32 or float64 of a number in the normal range is near 1.
\<close>

definition near :: "nat \<Rightarrow> real \<Rightarrow> real \<Rightarrow> bool" where
  "near k y x = (x / (1 + 1 / 2 ^ 23) ^ k \<le> y \<and> y \<le> x * (1 + 1 / 2 ^ 23) ^ k)"

text \<open>The lengths of two one-dimensional tensors that torch can multiply elementwise.\<close>

definition broadcasts :: "nat \<Rightarrow> nat \<Rightarrow> bool" where
  "broadcasts a b = (a = b \<or> a = 1 \<or> b = 1)"

subsection \<open>Example models\<close>

text \<open>
  The feature matrix of the spec's end-to-end scenario: the rows are the vectors of
  \<open>["good", "movie"]\<close> and \<open>["bad", "movie"]\<close> over the vocabulary good, movie, bad;
  and the model \<open>fit\<close> leaves on it with labels \<open>[1, 0]\<close> and \<open>delta = 1\<close>.
\<close>

definition example_features :: matrix where
  "example_features = \<lparr>ncols = 3, rows = [[Fin 1, Fin 1, Fin 0], [Fin 0, Fin 1, Fin 1]]\<rparr>"

definition example_model :: NaiveBayes where
  "example_model = snd (fit NaiveBayes_init example_features [1, 0] (Fin 1))"

text \<open>A training set with three classes over a vocabulary of two words.\<close>

definition three_class_features :: matrix where
  "three_class_features = \<lparr>ncols = 2, rows = [[Fin 1, Fin 0], [Fin 0, Fin 1], [Fin 1, Fin 1]]\<rparr>"

definition three_class_model :: NaiveBayes where
  "three_class_model = snd (fit NaiveBayes_init three_class_features [0, 1, 2] (Fin 1))"

section \<open>Rounding: exact values and error bounds\<close>

lemma round_even_int [simp]: "round_even (of_int k) = k"
  by (simp add: round_even_def)

lemma round_even_err: "\<bar>of_int (round_even r) - r\<bar> \<le> 1 / 2"
  unfolding round_even_def Let_def by (auto simp: abs_le_iff)

lemma floor_log2_eq:
  assumes "2 powi e \<le> \<bar>x\<bar>" "\<bar>x\<bar> < 2 powi (e + 1)"
  shows "\<lfloor>log 2 \<bar>x\<bar>\<rfloor> = e"
proof -
  have pos: "0 < \<bar>x\<bar>"
    using assms(1) by (smt (verit) zero_less_power_int)
  have "(2::real) powr real_of_int e = 2 powi e" "(2::real) powr (real_of_int e + 1) = 2 powi (e + 1)"
    using powr_real_of_int'[of 2 e] powr_real_of_int'[of 2 "e + 1"] by simp_all
  then show ?thesis
    using assms pos by (simp add: floor_log_eq_powr_iff)
qed

lemma floor_log2_bounds:
  assumes "x \<noteq> 0"
  shows "2 powi \<lfloor>log 2 \<bar>x\<bar>\<rfloor> \<le> \<bar>x\<bar>" "\<bar>x\<bar> < 2 powi (\<lfloor>log 2 \<bar>x\<bar>\<rfloor> + 1)"
proof -
  have pos: "0 < \<bar>x\<bar>" using assms by simp
  let ?e = "\<lfloor>log 2 \<bar>x\<bar>\<rfloor>"
  have "(2::real) powr real_of_int ?e \<le> \<bar>x\<bar> \<and> \<bar>x\<bar> < 2 powr (real_of_int ?e + 1)"
    using floor_log_eq_powr_iff[of "\<bar>x\<bar>" 2 ?e] pos by simp
  moreover have "(2::real) powr real_of_int ?e = 2 powi ?e"
    "(2::real) powr (real_of_int ?e + 1) = 2 powi (?e + 1)"
    using powr_real_of_int'[of 2 ?e] powr_real_of_int'[of 2 "?e + 1"] by simp_all
  ultimately show "2 powi ?e \<le> \<bar>x\<bar>" "\<bar>x\<bar> < 2 powi (?e + 1)" by simp_all
qed

text \<open>Evaluating the rounding of a number whose binade is known.\<close>

lemma fp_round_at:
  assumes "2 powi e \<le> \<bar>x\<bar>" "\<bar>x\<bar> < 2 powi (e + 1)" "emin \<le> e"
  shows "fp_round p emin emax x =
     (let q = 2 powi (e - (int p - 1));
          y = of_int (round_even (x / q)) * q
      in if 2 powi (emax + 1) \<le> \<bar>y\<bar> then (if 0 < x then PInf else NInf) else Fin y)"
proof -
  have "x \<noteq> 0" using assms(1) by (smt (verit) zero_less_power_int abs_zero)
  moreover have "fp_exp emin x = e"
    using floor_log2_eq[OF assms(1,2)] assms(3) by (simp add: fp_exp_def)
  ultimately show ?thesis by (simp add: fp_round_def)
qed

lemma f32_third: "f32 (1 / 3) = Fin (11184811 / 2 ^ 25)"
  by (simp add: f32_def fp_round_at[of "-2"] round_even_def)

lemma f32_two_thirds: "f32 (2 / 3) = Fin (11184811 / 2 ^ 24)"
  by (simp add: f32_def fp_round_at[of "-1"] round_even_def)

lemma f32_tie: "f32 (2 ^ 24 + 1) = Fin (2 ^ 24)"
  by (simp add: f32_def fp_round_at[of "24"] round_even_def)

lemma powi2_less_imp: "(2::real) powi a < 2 powi b \<Longrightarrow> a < b"
  using power_int_increasing[of b a "2::real"] by (cases "a < b") auto

lemma fp_round_exact:
  assumes m: "\<bar>m\<bar> < 2 ^ p" and j: "emin - (int p - 1) \<le> j"
    and x: "x = of_int m * 2 powi j" and top: "\<bar>x\<bar> < 2 powi (emax + 1)"
  shows "fp_round p emin emax x = Fin x"
proof (cases "x = 0")
  case True
  then show ?thesis by (simp add: fp_round_def)
next
  case False
  let ?E = "\<lfloor>log 2 \<bar>x\<bar>\<rfloor>"
  let ?t = "fp_exp emin x - (int p - 1)"
  have "2 powi ?E \<le> \<bar>x\<bar>" by (rule floor_log2_bounds(1)[OF False])
  also have "\<bar>x\<bar> = real_of_int \<bar>m\<bar> * 2 powi j"
    unfolding x by (simp add: abs_mult)
  also have "\<dots> < 2 ^ p * 2 powi j"
    using m by (intro mult_strict_right_mono) (simp_all add: of_int_less_iff[symmetric, where 'a=real] del: of_int_less_iff)
  also have "\<dots> = 2 powi (int p + j)"
    by (simp add: power_int_add)
  finally have "?E < int p + j"
    by (rule powi2_less_imp)
  then have t: "?t \<le> j"
    using j by (simp add: fp_exp_def)
  then obtain d :: nat where d: "j = ?t + int d"
    by (metis nonneg_int_cases diff_ge_0_iff_ge add_diff_cancel_left' add.commute diff_add_cancel)
  have "x / 2 powi ?t = of_int m * (2 powi j / 2 powi ?t)"
    unfolding x by simp
  also have "2 powi j / 2 powi ?t = (2::real) ^ d"
    unfolding d by (simp add: power_int_add)
  finally have q: "x / 2 powi ?t = of_int (m * 2 ^ d)"
    by simp
  have y: "of_int (round_even (x / 2 powi ?t)) * 2 powi ?t = x"
    unfolding q round_even_int using q by (simp add: field_simps)
  show ?thesis
    using False top by (simp add: fp_round_def Let_def y)
qed

lemma f32_exact:
  assumes "\<bar>m\<bar> < 2 ^ 24" "- 149 \<le> j" "x = of_int m * 2 powi j" "\<bar>x\<bar> < 2 ^ 128"
  shows "f32 x = Fin x"
  unfolding f32_def using assms by (intro fp_round_exact[of m 24 _ j]) simp_all

lemma f32_of_nat: "n \<le> 2 ^ 24 \<Longrightarrow> f32 (real n) = Fin (real n)"
proof (cases "n = 2 ^ 24")
  case True
  then show ?thesis
    using f32_exact[of 1 24 "2 ^ 24"] by simp
next
  case False
  assume "n \<le> 2 ^ 24"
  with False have "n < 2 ^ 24" by simp
  then have "\<bar>int n\<bar> < 2 ^ 24" by simp
  moreover have "real n < 2 ^ 24" using \<open>n < 2 ^ 24\<close> by simp
  then have "real n < 2 ^ 128" by simp
  ultimately show ?thesis
    using f32_exact[of "int n" 0 "real n"] by simp
qed

lemma fp_round_rel:
  assumes lo: "2 powi emin \<le> x" and hi: "x < 2 powi emax" and p: "0 < p"
  shows "\<exists>y. fp_round p emin emax x = Fin y \<and> \<bar>y - x\<bar> \<le> x * 2 powi (- int p)"
proof -
  have pos: "0 < x" using lo by (smt (verit) zero_less_power_int)
  then have nz: "x \<noteq> 0" by simp
  let ?E = "\<lfloor>log 2 \<bar>x\<bar>\<rfloor>"
  have E: "2 powi ?E \<le> x" "x < 2 powi (?E + 1)"
    using floor_log2_bounds[OF nz] pos by simp_all
  have "2 powi emin < (2::real) powi (?E + 1)"
    using lo E(2) by linarith
  then have "emin < ?E + 1" by (rule powi2_less_imp)
  then have "emin \<le> ?E" by simp
  then have e: "fp_exp emin x = ?E" by (simp add: fp_exp_def)
  let ?q = "(2::real) powi (?E - (int p - 1))"
  let ?y = "of_int (round_even (x / ?q)) * ?q"
  have qpos: "0 < ?q" by simp
  have "?y - x = (of_int (round_even (x / ?q)) - x / ?q) * ?q"
    using qpos by (simp add: left_diff_distrib)
  then have "\<bar>?y - x\<bar> = \<bar>of_int (round_even (x / ?q)) - x / ?q\<bar> * \<bar>?q\<bar>"
    by (simp only: abs_mult)
  also have "\<bar>?q\<bar> = ?q" using qpos by simp
  finally have "\<bar>?y - x\<bar> = \<bar>of_int (round_even (x / ?q)) - x / ?q\<bar> * ?q" .
  also have "\<dots> \<le> (1 / 2) * ?q"
    using round_even_err[of "x / ?q"] qpos by (intro mult_right_mono) simp_all
  also have "(1 / 2) * ?q = 2 powi ?E * 2 powi (- int p)"
    by (simp add: power_int_diff power_int_minus field_simps power_int_add)
  also have "\<dots> \<le> x * 2 powi (- int p)"
    using E(1) by (intro mult_right_mono) simp_all
  finally have err: "\<bar>?y - x\<bar> \<le> x * 2 powi (- int p)" .
  have "2 powi (- int p) \<le> (1::real)"
    using p by (simp add: power_int_minus inverse_le_1_iff one_le_power)
  then have "x * 2 powi (- int p) \<le> x" using pos by (simp add: mult_left_le)
  then have "\<bar>?y\<bar> \<le> 2 * x" using err by linarith
  also have "\<dots> < 2 * 2 powi emax" using hi by simp
  also have "\<dots> = 2 powi (emax + 1)" by (simp add: power_int_add)
  finally have "\<not> 2 powi (emax + 1) \<le> \<bar>?y\<bar>" by simp
  then have "fp_round p emin emax x = Fin ?y"
    using nz e by (simp add: fp_round_def Let_def)
  with err show ?thesis by blast
qed


lemma f32_0 [simp]: "f32 0 = Fin 0"
  by (simp add: f32_def fp_round_def)

lemma f64_0 [simp]: "f64 0 = Fin 0"
  by (simp add: f64_def fp_round_def)

lemma fadd32_nat:
  "a + b \<le> 2 ^ 24 \<Longrightarrow> fadd32 (Fin (real a)) (Fin (real b)) = Fin (real (a + b))"
  using f32_of_nat[of "a + b"] by (simp add: fadd32_def)


lemma near_pos: "near k y x \<Longrightarrow> 0 < x \<Longrightarrow> 0 < y"
  unfolding near_def
  by (smt (verit) divide_pos_pos zero_less_power zero_less_divide_1_iff zero_less_numeral)

lemma eps_ge1: "1 \<le> (1 + 1 / 2 ^ 23 :: real) ^ k"
  by (rule one_le_power) simp


lemma near_trans:
  assumes "near j z y" "near k y x" "0 \<le> x"
  shows "near (j + k) z x"
proof -
  let ?e = "(1 + 1 / 2 ^ 23 :: real)"
  have ej: "0 < ?e ^ j" and ek: "0 < ?e ^ k" by simp_all
  have "x / ?e ^ (j + k) = (x / ?e ^ k) / ?e ^ j"
    by (simp add: power_add)
  also have "\<dots> \<le> y / ?e ^ j"
    using assms(2) ej unfolding near_def by (intro divide_right_mono) simp_all
  also have "\<dots> \<le> z" using assms(1) unfolding near_def by simp
  finally have lo: "x / ?e ^ (j + k) \<le> z" .
  have "z \<le> y * ?e ^ j" using assms(1) unfolding near_def by simp
  also have "\<dots> \<le> (x * ?e ^ k) * ?e ^ j"
    using assms(2) ej unfolding near_def by (intro mult_right_mono) simp_all
  also have "\<dots> = x * ?e ^ (j + k)" by (simp add: power_add)
  finally show ?thesis using lo unfolding near_def by simp
qed

lemma near_add:
  assumes "near k a x" "near k b y"
  shows "near k (a + b) (x + y)"
  using assms unfolding near_def by (simp add: add_divide_distrib distrib_right add_mono)


lemma near_divide:
  assumes "near j a x" "near k b y" "0 \<le> x" "0 < y"
  shows "near (j + k) (a / b) (x / y)"
proof -
  let ?e = "(1 + 1 / 2 ^ 23 :: real)"
  have ej: "0 < ?e ^ j" and ek: "0 < ?e ^ k" by simp_all
  have bpos: "0 < b" using near_pos[OF assms(2,4)] .
  have a0: "0 \<le> a"
    using assms(1,3) ej unfolding near_def by (smt (verit) divide_nonneg_pos)
  have "x / y / ?e ^ (j + k) = (x / ?e ^ j) / (y * ?e ^ k)"
    by (simp add: power_add)
  also have "\<dots> \<le> a / (y * ?e ^ k)"
    using assms(1,4) ek unfolding near_def by (intro divide_right_mono) simp_all
  also have "\<dots> \<le> a / b"
    using assms(2) a0 bpos unfolding near_def by (intro divide_left_mono) (simp_all add: assms(4))
  finally have lo: "x / y / ?e ^ (j + k) \<le> a / b" .
  have yk: "0 < y / ?e ^ k" using assms(4) ek by simp
  have "0 < b * (y / ?e ^ k)" using bpos yk by (rule mult_pos_pos)
  moreover have "y / ?e ^ k \<le> b" using assms(2) unfolding near_def by simp
  ultimately have "a / b \<le> a / (y / ?e ^ k)"
    using a0 by (intro divide_left_mono)
  also have "\<dots> \<le> (x * ?e ^ j) / (y / ?e ^ k)"
    using assms(1) yk unfolding near_def by (intro divide_right_mono) simp_all
  also have "\<dots> = x / y * ?e ^ (j + k)"
    by (simp add: power_add)
  finally show ?thesis using lo unfolding near_def by simp
qed

lemma near_sum_list:
  assumes "\<And>w. w \<in> set ws \<Longrightarrow> near k (a w) (x w)"
  shows "near k (\<Sum>w\<leftarrow>ws. a w) (\<Sum>w\<leftarrow>ws. x w)"
  using assms
proof (induction ws)
  case Nil
  then show ?case by (simp add: near_def)
next
  case (Cons w ws)
  then show ?case by (simp add: near_add)
qed

lemma near_of_abs:
  assumes "\<bar>y - x\<bar> \<le> x * u" "0 \<le> u" "u \<le> 1 / 2 ^ 24" "0 \<le> x"
  shows "near 1 y x"
proof -
  have "x * u \<le> x * (1 / 2 ^ 24)"
    using assms(3,4) by (rule mult_left_mono)
  then have ux: "x * u \<le> x / 2 ^ 24" by simp
  have "x / (1 + 1 / 2 ^ 23) \<le> x - x / 2 ^ 24"
    using assms(4) by (simp add: field_simps)
  moreover have "x + x / 2 ^ 24 \<le> x * (1 + 1 / 2 ^ 23)"
    using assms(4) by (simp add: field_simps)
  ultimately show ?thesis
    using assms(1) ux unfolding near_def by (simp add: abs_le_iff) 
qed

lemma f32_near:
  assumes "1 / 2 ^ 126 \<le> x" "x < 2 ^ 127"
  shows "\<exists>y. f32 x = Fin y \<and> near 1 y x"
proof -
  have "2 powi (- 126) \<le> x" "x < 2 powi 127"
    using assms by (simp_all add: power_int_minus inverse_eq_divide)
  from fp_round_rel[OF this, of 24] obtain y where
    y: "f32 x = Fin y" "\<bar>y - x\<bar> \<le> x * 2 powi (- int 24)"
    unfolding f32_def by auto
  have "0 \<le> x" using assms(1) by (smt (verit) zero_le_divide_1_iff zero_le_power)
  then have "near 1 y x"
    using y(2) by (intro near_of_abs[of y x "2 powi (- int 24)"]) (simp_all add: power_int_minus inverse_eq_divide)
  with y(1) show ?thesis by blast
qed


section \<open>Vocabulary and vectorizer\<close>

text \<open>Every vocabulary that \<open>build_vocab\<close> returns is a vocabulary of the data model.\<close>

lemma build_vocab_word_inv: "vocab_inv s \<Longrightarrow> vocab_inv (build_vocab_word w s)"
  by (cases s) (auto simp: vocab_inv_def build_vocab_word_def map_of_eq_None_iff)

lemma fold_build_vocab_word_inv: "vocab_inv s \<Longrightarrow> vocab_inv (fold build_vocab_word ws s)"
  by (induction ws arbitrary: s) (simp_all add: build_vocab_word_inv)

lemma fold_examples_inv:
  "vocab_inv s \<Longrightarrow>
   vocab_inv (fold (\<lambda>example. fold build_vocab_word (words example)) examples s)"
  by (induction examples arbitrary: s) (simp_all add: fold_build_vocab_word_inv)

lemma build_vocab_wf: "wf_vocab (build_vocab examples)"
proof -
  let ?s = "fold (\<lambda>example. fold build_vocab_word (words example)) examples ([], 0)"
  have "vocab_inv ([], 0)" by (simp add: vocab_inv_def)
  then have inv: "vocab_inv ?s" by (rule fold_examples_inv)
  then have "map snd (fst ?s) = map int [0..<length (fst ?s)]" "distinct (map fst (fst ?s))"
    by (simp_all add: vocab_inv_def)
  then show ?thesis
    unfolding build_vocab_def wf_vocab_def
    by (simp add: distinct_map list_all_iff)
qed

lemma map_of_snd_inj:
  assumes "distinct (map snd al)" "map_of al t = Some i" "map_of al t' = Some i"
  shows "t = t'"
proof -
  have "(t, i) \<in> set al" "(t', i) \<in> set al"
    using assms(2,3) by (auto dest: map_of_SomeD)
  moreover have "inj_on snd (set al)"
    using assms(1) by (simp add: distinct_map)
  ultimately have "(t, i) = (t', i)"
    by (intro inj_onD[of snd "set al"]) simp_all
  then show ?thesis by simp
qed

lemma wf_vocab_ok: "wf_vocab vocab \<Longrightarrow> vocab_ok (length vocab) vocab"
  unfolding wf_vocab_def vocab_ok_def
  by (auto simp: list_all_iff dest: map_of_SomeD map_of_snd_inj)

lemma tensor_index_ok:
  "0 \<le> i \<Longrightarrow> i < int n \<Longrightarrow> tensor_index n i = Inr (nat i)"
  by (simp add: tensor_index_def)

lemma bow_loop_length:
  "vocab_ok (length bow) vocab \<Longrightarrow>
   \<exists>v. bow_loop toks vocab binary bow = Inr v \<and> length v = length bow"
proof (induction toks arbitrary: bow)
  case Nil
  then show ?case by simp
next
  case (Cons w toks)
  show ?case
  proof (cases "map_of vocab w")
    case None
    then show ?thesis using Cons by simp
  next
    case (Some i)
    then have "tensor_index (length bow) i = Inr (nat i)"
      using Cons.prems by (auto simp: vocab_ok_def tensor_index_ok)
    then show ?thesis
      using Some Cons.IH[of "bow[nat i := (if binary then Fin 1 else fadd32 (bow ! nat i) (Fin 1))]"] Cons.prems
      by simp
  qed
qed

lemma incr32:
  assumes "k \<le> 2 ^ 24"
  shows "fadd32 (Fin (real k)) (Fin 1) = Fin (real (min (k + 1) (2 ^ 24)))"
proof (cases "k = 2 ^ 24")
  case True
  then show ?thesis using f32_tie by (simp add: fadd32_def)
next
  case False
  with assms have "k + 1 \<le> 2 ^ 24" by simp
  then show ?thesis using fadd32_nat[of k 1] by simp
qed

lemma bow_loop_count:
  "vocab_ok (length bow) vocab \<Longrightarrow> map_of vocab t = Some i \<Longrightarrow> bow ! nat i = Fin (real k) \<Longrightarrow>
   k \<le> 2 ^ 24 \<Longrightarrow> bow_loop toks vocab False bow = Inr v \<Longrightarrow>
   v ! nat i = Fin (real (min (k + count_list toks t) (2 ^ 24)))"
proof (induction toks arbitrary: bow k)
  case Nil
  then show ?case by simp
next
  case (Cons w toks)
  have ir: "0 \<le> i" "i < int (length bow)"
    using Cons.prems(1,2) by (auto simp: vocab_ok_def)
  show ?case
  proof (cases "map_of vocab w")
    case None
    then have "w \<noteq> t" using Cons.prems(2) by auto
    then show ?thesis using None Cons by simp
  next
    case (Some iw)
    have iwr: "0 \<le> iw" "iw < int (length bow)"
      using Cons.prems(1) Some by (auto simp: vocab_ok_def)
    let ?bow = "bow[nat iw := fadd32 (bow ! nat iw) (Fin 1)]"
    have run: "bow_loop toks vocab False ?bow = Inr v"
      using Cons.prems(5) Some iwr by (simp add: tensor_index_ok)
    have ok: "vocab_ok (length ?bow) vocab" using Cons.prems(1) by simp
    show ?thesis
    proof (cases "w = t")
      case True
      then have "iw = i" using Some Cons.prems(2) by simp
      then have "?bow ! nat i = Fin (real (min (k + 1) (2 ^ 24)))"
        using ir Cons.prems(3) incr32[OF Cons.prems(4)] by simp
      from Cons.IH[OF ok Cons.prems(2) this _ run] True show ?thesis
        by (simp add: min_def)
    next
      case False
      then have "iw \<noteq> i" using Some Cons.prems(1,2) by (auto simp: vocab_ok_def)
      then have "nat iw \<noteq> nat i" using ir iwr by simp
      then have "?bow ! nat i = Fin (real k)" using Cons.prems(3) by simp
      from Cons.IH[OF ok Cons.prems(2) this Cons.prems(4) run] False show ?thesis by simp
    qed
  qed
qed

lemma bow_loop_binary:
  "vocab_ok (length bow) vocab \<Longrightarrow> map_of vocab t = Some i \<Longrightarrow>
   bow_loop toks vocab True bow = Inr v \<Longrightarrow>
   v ! nat i = (if t \<in> set toks then Fin 1 else bow ! nat i)"
proof (induction toks arbitrary: bow)
  case Nil
  then show ?case by simp
next
  case (Cons w toks)
  have ir: "0 \<le> i" "i < int (length bow)"
    using Cons.prems(1,2) by (auto simp: vocab_ok_def)
  show ?case
  proof (cases "map_of vocab w")
    case None
    then have "w \<noteq> t" using Cons.prems(2) by auto
    then show ?thesis using None Cons by simp
  next
    case (Some iw)
    have iwr: "0 \<le> iw" "iw < int (length bow)"
      using Cons.prems(1) Some by (auto simp: vocab_ok_def)
    let ?bow = "bow[nat iw := Fin 1]"
    have run: "bow_loop toks vocab True ?bow = Inr v"
      using Cons.prems(3) Some iwr by (simp add: tensor_index_ok)
    have ok: "vocab_ok (length ?bow) vocab" using Cons.prems(1) by simp
    note ih = Cons.IH[OF ok Cons.prems(2) run]
    show ?thesis
    proof (cases "w = t")
      case True
      then have "iw = i" using Some Cons.prems(2) by simp
      then have "?bow ! nat i = Fin 1" using ir by simp
      with ih True show ?thesis by simp
    next
      case False
      then have "iw \<noteq> i" using Some Cons.prems(1,2) by (auto simp: vocab_ok_def)
      then have "nat iw \<noteq> nat i" using ir iwr by simp
      then have "?bow ! nat i = bow ! nat i" by simp
      with ih False show ?thesis by simp
    qed
  qed
qed

lemma counts_vec_update:
  assumes "counts_vec binary v" "i < length v"
  shows "counts_vec binary (v[i := (if binary then Fin 1 else fadd32 (v ! i) (Fin 1))])"
proof -
  obtain k :: nat where k: "v ! i = Fin (real k)" "k \<le> 2 ^ 24"
    using assms by (auto simp: counts_vec_def)
  have new: "\<exists>k'::nat. (if binary then Fin 1 else fadd32 (v ! i) (Fin 1)) = Fin (real k') \<and>
      k' \<le> 2 ^ 24 \<and> (binary \<longrightarrow> k' \<le> 1)"
  proof (cases binary)
    case True
    then show ?thesis by (intro exI[of _ 1]) simp
  next
    case False
    then show ?thesis
      using k incr32[OF k(2)] by (intro exI[of _ "min (k + 1) (2 ^ 24)"]) simp
  qed
  show ?thesis
    unfolding counts_vec_def
  proof (intro allI impI)
    fix j assume "j < length (v[i := (if binary then Fin 1 else fadd32 (v ! i) (Fin 1))])"
    then have j: "j < length v" by simp
    show "\<exists>k::nat. v[i := (if binary then Fin 1 else fadd32 (v ! i) (Fin 1))] ! j = Fin (real k) \<and>
        k \<le> 2 ^ 24 \<and> (binary \<longrightarrow> k \<le> 1)"
    proof (cases "j = i")
      case True
      then show ?thesis using new assms(2) by simp
    next
      case False
      then show ?thesis using assms(1) j by (simp add: counts_vec_def)
    qed
  qed
qed

lemma bow_loop_counts_vec:
  "counts_vec binary bow \<Longrightarrow> bow_loop toks vocab binary bow = Inr v \<Longrightarrow> counts_vec binary v"
proof (induction toks arbitrary: bow)
  case Nil
  then show ?case by simp
next
  case (Cons w toks)
  show ?case
  proof (cases "map_of vocab w")
    case None
    then show ?thesis using Cons by simp
  next
    case (Some iw)
    show ?thesis
    proof (cases "tensor_index (length bow) iw")
      case (Inl e)
      then show ?thesis using Cons.prems(2) Some by simp
    next
      case (Inr p)
      then have "p < length bow"
        by (auto simp: tensor_index_def Let_def split: if_splits)
      from counts_vec_update[OF Cons.prems(1) this] Cons.IH Cons.prems(2) Some Inr
      show ?thesis by simp
    qed
  qed
qed

lemma bow_loop_filter:
  "bow_loop (filter (\<lambda>t. map_of vocab t \<noteq> None) toks) vocab binary bow =
   bow_loop toks vocab binary bow"
  by (induction toks arbitrary: bow) (auto split: option.splits sum.splits)

text \<open>
  Claim C8, as amended. For every token list and every vocabulary of the data model,
  \<open>bag_of_words\<close> raises nothing and returns a vector of length \<open>|vocab|\<close>. In binary mode
  position \<open>vocab[t]\<close> is 1 exactly when \<open>t\<close> occurs among the tokens. In count mode it is
  the number of occurrences of \<open>t\<close> as long as that is at most \<open>2 ^ 24 = 16777216\<close>, and
  16777216 beyond: adding 1 to that float32 value does not change it. Every entry is a
  non-negative integer, at most 1 in binary mode, and dropping the tokens that are not in
  the vocabulary gives the same vector.
\<close>

theorem bag_of_words_spec:
  assumes "wf_vocab vocab"
  shows "\<exists>v. bag_of_words toks vocab binary = Inr v \<and> length v = length vocab \<and>
    (\<forall>t i. map_of vocab t = Some i \<longrightarrow>
       v ! nat i = (if binary then (if t \<in> set toks then Fin 1 else Fin 0)
                    else Fin (real (min (count_list toks t) (2 ^ 24))))) \<and>
    (\<forall>j < length v. \<exists>k::nat. v ! j = Fin (real k) \<and> k \<le> 2 ^ 24 \<and> (binary \<longrightarrow> k \<le> 1)) \<and>
    bag_of_words (filter (\<lambda>t. map_of vocab t \<noteq> None) toks) vocab binary = Inr v"
proof -
  let ?z = "replicate (length vocab) (Fin 0)"
  have ok: "vocab_ok (length ?z) vocab"
    using wf_vocab_ok[OF assms] by simp
  from bow_loop_length[OF ok] obtain v where
    v: "bow_loop toks vocab binary ?z = Inr v" and len: "length v = length vocab"
    by auto
  have pos: "v ! nat i = (if binary then (if t \<in> set toks then Fin 1 else Fin 0)
                    else Fin (real (min (count_list toks t) (2 ^ 24))))"
    if m: "map_of vocab t = Some i" for t i
  proof -
    have ir: "0 \<le> i" "i < int (length vocab)"
      using ok m by (auto simp: vocab_ok_def)
    then have z: "?z ! nat i = Fin (real 0)" by simp
    show ?thesis
    proof (cases binary)
      case True
      with bow_loop_binary[OF ok m] v z show ?thesis by simp
    next
      case False
      with bow_loop_count[OF ok m z] v show ?thesis by simp
    qed
  qed
  have "counts_vec binary ?z"
    by (auto simp: counts_vec_def intro: exI[of _ 0])
  from bow_loop_counts_vec[OF this v] have cv: "counts_vec binary v" .
  have f: "bag_of_words (filter (\<lambda>t. map_of vocab t \<noteq> None) toks) vocab binary = Inr v"
    unfolding bag_of_words_def bow_loop_filter by (rule v)
  have b: "bag_of_words toks vocab binary = Inr v"
    unfolding bag_of_words_def by (rule v)
  show ?thesis
    using b len pos cv f unfolding counts_vec_def by blast
qed

theorem bag_of_words_spec_witness:
  "wf_vocab [(''good'', 0), (''movie'', 1), (''bad'', 2)] \<and>
   bag_of_words [''good'', ''ugly'', ''good'', ''bad''] [(''good'', 0), (''movie'', 1), (''bad'', 2)] False
     = Inr [Fin 2, Fin 0, Fin 1] \<and>
   bag_of_words [''good'', ''ugly'', ''good'', ''bad''] [(''good'', 0), (''movie'', 1), (''bad'', 2)] True
     = Inr [Fin 1, Fin 0, Fin 1]"
  using bag_of_words_spec[of "[(''good'', 0), (''movie'', 1), (''bad'', 2)]" "[''good'', ''ugly'', ''good'', ''bad'']" False]
    fadd32_nat[of 0 1] fadd32_nat[of 1 1]
  by (simp add: wf_vocab_def bag_of_words_def tensor_index_def)

lemma count_list_replicate: "count_list (replicate n x) x = n"
  by (induction n) simp_all

text \<open>
  The claim as stated fails in count mode: after 16777217 occurrences of a word its entry
  is 16777216.
\<close>

theorem bag_of_words_saturates_counterexample:
  "bag_of_words (replicate 16777217 ''a'') [(''a'', 0)] False = Inr [Fin 16777216] \<and>
   count_list (replicate 16777217 ''a'') ''a'' = 16777217"
proof -
  let ?toks = "replicate 16777217 ''a''"
  have ok: "vocab_ok (length [Fin 0]) [(''a'', 0)]"
    by (simp add: vocab_ok_def)
  from bow_loop_length[OF ok, of ?toks False] obtain v where
    v: "bow_loop ?toks [(''a'', 0)] False [Fin 0] = Inr v" "length v = 1"
    by auto
  have "v ! nat 0 = Fin (real (min (0 + count_list ?toks ''a'') (2 ^ 24)))"
    by (rule bow_loop_count[OF ok _ _ _ v(1)]) simp_all
  then have "v ! 0 = Fin 16777216"
    by (simp add: count_list_replicate)
  with v(2) have "v = [Fin 16777216]"
    by (cases v) auto
  with v(1) show ?thesis
    by (simp add: bag_of_words_def count_list_replicate)
qed

section \<open>Training: properties of \<open>fit\<close>\<close>

lemma fsum_Nil [simp]: "fsum [] = Fin 0"
  by (simp add: fsum_def)

lemma fsum_Cons [simp]: "fsum (x # xs) = fadd x (fsum xs)"
  by (simp add: fsum_def)

lemma fsum_map_Fin: "fsum (map Fin xs) = Fin (sum_list xs)"
  by (induction xs) simp_all

lemma bincount_fold:
  "length bins = n \<Longrightarrow> \<forall>x \<in> set xs. x < n \<Longrightarrow>
   fold (\<lambda>x bins. bins[x := bins ! x + 1]) xs bins =
   map (\<lambda>c. bins ! c + count_list xs c) [0..<n]"
proof (induction xs arbitrary: bins)
  case Nil
  then show ?case by (auto intro: nth_equalityI)
next
  case (Cons x xs)
  have "fold (\<lambda>x bins. bins[x := bins ! x + 1]) xs (bins[x := bins ! x + 1]) =
        map (\<lambda>c. bins[x := bins ! x + 1] ! c + count_list xs c) [0..<n]"
    using Cons.prems by (intro Cons.IH) simp_all
  also have "\<dots> = map (\<lambda>c. bins ! c + count_list (x # xs) c) [0..<n]"
    using Cons.prems by (auto simp: nth_list_update)
  finally show ?case by simp
qed

lemma bincount_counts:
  "labels \<noteq> [] \<Longrightarrow> bincount labels = map (count_list labels) [0..<Suc (Max (set labels))]"
proof -
  assume ne: "labels \<noteq> []"
  have "\<forall>x \<in> set labels. x < Suc (Max (set labels))"
    by (simp add: less_Suc_eq_le)
  from bincount_fold[OF _ this, of "replicate (Suc (Max (set labels))) 0"] ne
  show ?thesis
    by (simp add: bincount_def del: replicate_Suc upt_Suc cong: map_cong)
qed

lemma sum_counts_upto:
  assumes "labels \<noteq> []"
  shows "(\<Sum>c\<leftarrow>[0..<Suc (Max (set labels))]. count_list labels c) = length labels"
proof -
  have "set labels \<subseteq> {0..<Suc (Max (set labels))}"
    by (auto simp: less_Suc_eq_le)
  then have "sum (count_list labels) {0..<Suc (Max (set labels))} = length labels"
    by (intro sum_count_set) simp_all
  then show ?thesis
    by (simp add: interv_sum_list_conv_sum_set_nat del: upt_Suc)
qed

lemma mask_nth:
  "length rs = length bs \<Longrightarrow>
   map fst (filter snd (zip rs bs)) = map ((!) rs) (filter ((!) bs) [0..<length bs])"
proof (induction rs bs rule: list_induct2)
  case Nil
  then show ?case by simp
next
  case (Cons r rs b bs)
  have upt: "[0..<Suc (length bs)] = 0 # map Suc [0..<length bs]"
    by (simp add: upt_conv_Cons map_Suc_upt del: upt_Suc)
  show ?case
    unfolding length_Cons upt using Cons.IH
    by (simp add: filter_map comp_def)
qed

lemma word_counts_loop_bad:
  "length labels \<noteq> length (rows features) \<Longrightarrow> cs \<noteq> [] \<Longrightarrow>
   word_counts_loop features labels cs = Inl IndexError"
  by (cases cs) (simp_all add: mask_rows_def)

lemma estimate_class_priors_eq:
  assumes "labels \<noteq> []"
  shows "estimate_class_priors labels =
     map (\<lambda>c. (c, fdiv32 (f32 (real (count_list labels c))) (f32 (real (length labels)))))
       [0..<Suc (Max (set labels))]"
  using assms
  by (simp add: estimate_class_priors_def bincount_counts enumerate_map_upt del: upt_Suc)

lemma word_counts_loop_ok:
  "length labels = length (rows features) \<Longrightarrow>
   word_counts_loop features labels cs =
     Inr (map (\<lambda>c. (c, class_word_counts features labels c)) cs)"
  by (induction cs) (simp_all add: mask_rows_def class_word_counts_def)

lemma ecp_ok:
  assumes "labels \<noteq> []" "length labels = length (rows features)"
  shows "estimate_conditional_probabilities features labels delta =
         Inr (trained_cond features labels delta)"
  using assms
  by (simp add: estimate_conditional_probabilities_def torch_max_def word_counts_loop_ok
      trained_cond_def smoothed_counts_def comp_def del: upt_Suc)

lemma ecp_empty: "estimate_conditional_probabilities features [] delta = Inl RuntimeError"
  by (simp add: estimate_conditional_probabilities_def torch_max_def)

lemma ecp_bad:
  assumes "labels \<noteq> []" "length labels \<noteq> length (rows features)"
  shows "estimate_conditional_probabilities features labels delta = Inl IndexError"
  using assms
  by (simp add: estimate_conditional_probabilities_def torch_max_def word_counts_loop_bad
      del: upt_Suc)

lemma fit_ok:
  assumes "labels \<noteq> []" "length labels = length (rows features)"
  shows "fit self features labels delta =
     (None, self\<lparr>class_priors := Some (estimate_class_priors labels),
                 vocab_size := Some (ncols features),
                 conditional_probabilities := Some (trained_cond features labels delta)\<rparr>)"
  using assms by (simp add: fit_def ecp_ok)

lemma fit_outcome:
  "fst (fit self features labels delta) =
     (if labels = [] then Some RuntimeError
      else if length labels \<noteq> length (rows features) then Some IndexError else None)"
  by (simp add: fit_def ecp_ok ecp_empty ecp_bad)

lemma fit_NoneD:
  assumes "fit self features labels delta = (None, m)"
  shows "labels \<noteq> []" "length labels = length (rows features)"
    "m = self\<lparr>class_priors := Some (estimate_class_priors labels),
                 vocab_size := Some (ncols features),
                 conditional_probabilities := Some (trained_cond features labels delta)\<rparr>"
proof -
  have "fst (fit self features labels delta) = None" using assms by simp
  then show ne: "labels \<noteq> []" and len: "length labels = length (rows features)"
    by (auto simp: fit_outcome split: if_splits)
  from fit_ok[OF ne len, of self delta] assms show "m = self\<lparr>class_priors := Some (estimate_class_priors labels),
                 vocab_size := Some (ncols features),
                 conditional_probabilities := Some (trained_cond features labels delta)\<rparr>"
    by simp
qed

lemma fit_priors: "class_priors (snd (fit self features labels delta)) = Some (estimate_class_priors labels)"
  by (simp add: fit_def Let_def split: sum.splits)

lemma map_of_upt:
  "c \<in> set cs \<Longrightarrow> map_of (map (\<lambda>k. (k, f k)) cs) c = Some (f c)"
  by (simp add: map_of_map_restrict)

lemma trained_cond_row:
  assumes "c < Suc (Max (set labels))"
  shows "map_of (trained_cond features labels delta) c =
         Some (smoothed_counts (class_word_counts features labels c) delta (ncols features))"
    and "length (smoothed_counts (class_word_counts features labels c) delta (ncols features)) =
         ncols features"
proof -
  show "map_of (trained_cond features labels delta) c =
         Some (smoothed_counts (class_word_counts features labels c) delta (ncols features))"
    unfolding trained_cond_def using assms by (intro map_of_upt) auto
  show "length (smoothed_counts (class_word_counts features labels c) delta (ncols features)) =
         ncols features"
    by (simp add: smoothed_counts_def class_word_counts_def sum_dim0_def)
qed


subsection \<open>Class priors\<close>

lemma f64_exact:
  assumes "\<bar>m\<bar> < 2 ^ 53" "- 1074 \<le> j" "x = of_int m * 2 powi j" "\<bar>x\<bar> < 2 ^ 1024"
  shows "f64 x = Fin x"
  unfolding f64_def using assms by (intro fp_round_exact[of m 53 _ j]) simp_all

text \<open>The float32 and float64 values of the numbers in the examples.\<close>

lemma f32_values:
  "f32 1 = Fin 1" "f32 2 = Fin 2" "f32 3 = Fin 3" "f32 4 = Fin 4" "f32 5 = Fin 5"
  "f32 (- 1) = Fin (- 1)" "f32 (- 3) = Fin (- 3)" "f32 (1 / 2) = Fin (1 / 2)"
  "f32 (1 / 3) = Fin (11184811 / 2 ^ 25)" "f32 (2 / 3) = Fin (11184811 / 2 ^ 24)"
  "f32 (1 / 5) = Fin (13421773 / 2 ^ 26)" "f32 (2 / 5) = Fin (13421773 / 2 ^ 25)"
  using f32_exact[of 1 0 1] f32_exact[of 2 0 2] f32_exact[of 3 0 3] f32_exact[of 4 0 4]
    f32_exact[of 5 0 5] f32_exact[of "- 1" 0 "- 1"] f32_exact[of "- 3" 0 "- 3"]
    f32_exact[of 1 "- 1" "1 / 2"]
  by (simp_all add: f32_def fp_round_at[of "- 2" "1 / 3"] fp_round_at[of "- 1" "2 / 3"]
      fp_round_at[of "- 3" "1 / 5"] fp_round_at[of "- 2" "2 / 5"] round_even_def)

lemma f64_values:
  "f64 1 = Fin 1" "f64 2 = Fin 2" "f64 3 = Fin 3" "f64 (- 3) = Fin (- 3)"
  using f64_exact[of 1 0 1] f64_exact[of 2 0 2] f64_exact[of 3 0 3] f64_exact[of "- 3" 0 "- 3"]
  by simp_all

lemmas fit_unfold = fit_def estimate_class_priors_def bincount_def
  estimate_conditional_probabilities_def torch_max_def mask_rows_def sum_dim0_def
  NaiveBayes_init_def fadd32_def fmul32_def fdiv32_def fsum32_def f32_values f64_values
  eval_nat_numeral

lemma near_abs3:
  assumes "near 3 y x" "0 \<le> x"
  shows "\<bar>y - x\<bar> \<le> x / 2 ^ 21"
proof -
  have up: "(1 + 1 / 2 ^ 23 :: real) ^ 3 \<le> 1 + 1 / 2 ^ 21"
    by (simp add: power3_eq_cube)
  have "x * (1 - 1 / 2 ^ 21) * (1 + 1 / 2 ^ 23) ^ 3 \<le> x * 1"
    unfolding mult.assoc using assms(2) by (intro mult_left_mono) (simp_all add: power3_eq_cube)
  then have lo: "x * (1 - 1 / 2 ^ 21) \<le> x / (1 + 1 / 2 ^ 23) ^ 3"
    by (simp add: pos_le_divide_eq)
  have "y \<le> x * (1 + 1 / 2 ^ 21)"
    using assms up unfolding near_def by (smt (verit) mult_left_mono)
  moreover have "x * (1 - 1 / 2 ^ 21) \<le> y"
    using assms(1) lo unfolding near_def by linarith
  ultimately have "y - x \<le> x / 2 ^ 21" "- (x / 2 ^ 21) \<le> y - x"
    by (simp_all add: algebra_simps)
  then show ?thesis by (simp only: abs_le_iff) simp
qed

lemma prior_value:
  assumes n: "1 \<le> n" "n < 2 ^ 63" and k: "k \<le> n"
  shows "\<exists>p. fdiv32 (f32 (real k)) (f32 (real n)) = Fin p \<and> near 3 p (real k / real n) \<and>
     (k = 0 \<longrightarrow> p = 0) \<and> (n \<le> 2 ^ 24 \<longrightarrow> Fin p = f32 (real k / real n))"
proof -
  have nr: "1 \<le> real n" "real n < 2 ^ 63"
    using n by (simp_all add: of_nat_less_numeral_power_cancel_iff)
  then have "1 / 2 ^ 126 \<le> real n" "real n < 2 ^ 127"
    by (simp_all add: order_trans[of _ 1] less_trans[of _ "2 ^ 63"])
  from f32_near[OF this] obtain b where b: "f32 (real n) = Fin b" "near 1 b (real n)"
    by blast
  have bpos: "0 < b" using near_pos[OF b(2)] nr by simp
  have exact: "Fin p = f32 (real k / real n)"
    if "fdiv32 (f32 (real k)) (f32 (real n)) = Fin p" "n \<le> 2 ^ 24" for p
  proof -
    have "f32 (real k) = Fin (real k)" "f32 (real n) = Fin (real n)"
      using that(2) k by (simp_all add: f32_of_nat)
    then show ?thesis using that(1) n(1) by (simp add: fdiv32_def)
  qed
  show ?thesis
  proof (cases "k = 0")
    case True
    then have "fdiv32 (f32 (real k)) (f32 (real n)) = Fin 0"
      using b(1) bpos by (simp add: fdiv32_def)
    moreover have "near 3 0 (real k / real n)"
      using True by (simp add: near_def)
    ultimately show ?thesis using exact by (intro exI[of _ 0]) auto
  next
    case False
    then have kr: "1 \<le> real k" "real k < 2 ^ 63"
      using k nr by simp_all
    then have "1 / 2 ^ 126 \<le> real k" "real k < 2 ^ 127"
      by (simp_all add: order_trans[of _ 1] less_trans[of _ "2 ^ 63"])
    from f32_near[OF this] obtain a where a: "f32 (real k) = Fin a" "near 1 a (real k)"
      by blast
    define x where "x = real k / real n"
    define r where "r = a / b"
    have "near (1 + 1) (a / b) (real k / real n)"
      using nr by (intro near_divide[OF a(2) b(2)]) simp_all
    then have q: "near 2 r x"
      unfolding x_def r_def by (simp only: one_add_one)
    have e2: "(1 + 1 / 2 ^ 23 :: real) ^ 2 \<le> 2"
      by (simp add: power2_eq_square)
    have xlo: "1 / 2 ^ 63 \<le> x" and xhi: "x \<le> 1"
      unfolding x_def using kr nr k by (simp_all add: field_simps)
    have x0: "0 \<le> x" using xlo by (simp add: order_trans[of 0 "1 / 2 ^ 63"])
    have "x / 2 \<le> x / (1 + 1 / 2 ^ 23) ^ 2"
      using e2 x0 by (intro divide_left_mono) simp_all
    moreover have "x / (1 + 1 / 2 ^ 23) ^ 2 \<le> r" using q unfolding near_def by simp
    moreover have "(1 / 2 ^ 126 :: real) \<le> 1 / 2 ^ 63 / 2" by simp
    moreover have "1 / 2 ^ 63 / 2 \<le> x / 2" using xlo by simp
    ultimately have "1 / 2 ^ 126 \<le> r" by linarith
    then have lo: "1 / 2 ^ 126 \<le> a / b" unfolding r_def .
    have "r \<le> x * (1 + 1 / 2 ^ 23) ^ 2" using q unfolding near_def by simp
    also have "\<dots> \<le> 1 * 2"
      using xhi e2 x0 by (intro mult_mono) simp_all
    finally have "r < 2 ^ 127" by simp
    then have hi: "a / b < 2 ^ 127" unfolding r_def .
    from f32_near[OF lo hi] obtain p where p: "f32 (a / b) = Fin p" "near 1 p (a / b)"
      by blast
    have "near (1 + 2) p (real k / real n)"
      using x0 p(2) q unfolding x_def r_def by (intro near_trans)
    then have "near 3 p (real k / real n)"
      by (simp only: numeral_Bit1[symmetric] one_plus_numeral semiring_norm)
    moreover have "fdiv32 (f32 (real k)) (f32 (real n)) = Fin p"
      using a(1) b(1) bpos p(1) by (simp add: fdiv32_def)
    ultimately show ?thesis using exact False by (intro exI[of _ p]) auto
  qed
qed

lemma sum_list_div_const:
  "(\<Sum>c\<leftarrow>cs. real (f c) / n) = real (\<Sum>c\<leftarrow>cs. f c) / n"
  by (induction cs) (simp_all add: add_divide_distrib)

text \<open>
  Claim C3, as amended. For every non-empty label vector (a tensor: fewer than \<open>2 ^ 63\<close>
  entries), \<open>fit\<close> stores a prior for every class \<open>c\<close> in \<open>0..max(label)\<close>: the float32
  quotient of the number of examples with label \<open>c\<close> and the number of examples. It
  differs from the exact quotient by a relative error of at most \<open>2 ^ -21\<close>, and it is the
  float32 nearest to the exact quotient when there are at most \<open>2 ^ 24\<close> examples. The
  priors sum to 1 up to \<open>2 ^ -21\<close>, and a class of that range with no example has prior
  exactly 0. The priors are assigned before anything in \<open>fit\<close> can raise, so this holds of
  the object after \<open>fit\<close> whatever the features are.
\<close>

theorem fit_class_priors:
  assumes "labels \<noteq> []" "length labels < 2 ^ 63"
  shows "\<exists>pr. class_priors (snd (fit self features labels delta)) = Some pr \<and>
     map fst pr = [0..<Suc (Max (set labels))] \<and>
     (\<forall>c \<le> Max (set labels). \<exists>p. map_of pr c = Some (Fin p) \<and>
        \<bar>p - real (count_list labels c) / real (length labels)\<bar>
          \<le> real (count_list labels c) / real (length labels) / 2 ^ 21 \<and>
        (length labels \<le> 2 ^ 24 \<longrightarrow>
           Fin p = f32 (real (count_list labels c) / real (length labels)))) \<and>
     (\<exists>s. fsum (map snd pr) = Fin s \<and> \<bar>s - 1\<bar> \<le> 1 / 2 ^ 21) \<and>
     (\<forall>c \<le> Max (set labels). c \<notin> set labels \<longrightarrow> map_of pr c = Some (Fin 0))"
proof -
  let ?pr = "estimate_class_priors labels"
  let ?n = "length labels"
  let ?cs = "[0..<Suc (Max (set labels))]"
  let ?P = "\<lambda>c. fdiv32 (f32 (real (count_list labels c))) (f32 (real ?n))"
  let ?x = "\<lambda>c. real (count_list labels c) / real ?n"
  have n: "1 \<le> ?n" using assms(1) by (cases labels) simp_all
  have kn: "count_list labels c \<le> ?n" for c
    by (simp add: count_list_eq_length_filter)
  have val: "\<exists>p. ?P c = Fin p \<and> near 3 p (?x c) \<and> (count_list labels c = 0 \<longrightarrow> p = 0) \<and>
      (?n \<le> 2 ^ 24 \<longrightarrow> Fin p = f32 (?x c))" for c
    by (rule prior_value[OF n assms(2) kn])
  have fin_nr: "?P c = Fin (the_real (?P c)) \<and> near 3 (the_real (?P c)) (?x c)" for c
  proof -
    from val[of c] obtain p where p: "?P c = Fin p" "near 3 p (?x c)" by blast
    then have "the_real (?P c) = p" by simp
    with p show ?thesis by simp
  qed
  then have fin: "Fin (the_real (?P c)) = ?P c" and nr: "near 3 (the_real (?P c)) (?x c)" for c
    by simp_all
  have keys: "map fst ?pr = ?cs"
    by (simp add: estimate_class_priors_eq[OF assms(1)] comp_def del: upt_Suc)
  have look: "map_of ?pr c = Some (?P c)" if "c \<le> Max (set labels)" for c
    unfolding estimate_class_priors_eq[OF assms(1)]
    using that by (intro map_of_upt) auto
  have a: "\<exists>p. map_of ?pr c = Some (Fin p) \<and> \<bar>p - ?x c\<bar> \<le> ?x c / 2 ^ 21 \<and>
      (?n \<le> 2 ^ 24 \<longrightarrow> Fin p = f32 (?x c))"
    if c: "c \<le> Max (set labels)" for c
  proof -
    from val[of c] obtain p where p: "?P c = Fin p" "near 3 p (?x c)"
      "?n \<le> 2 ^ 24 \<longrightarrow> Fin p = f32 (?x c)" by blast
    have "\<bar>p - ?x c\<bar> \<le> ?x c / 2 ^ 21"
      by (rule near_abs3[OF p(2)]) simp
    with look[OF c] p show ?thesis by auto
  qed
  have zero: "map_of ?pr c = Some (Fin 0)" if "c \<le> Max (set labels)" "c \<notin> set labels" for c
  proof -
    have "count_list labels c = 0" using that(2) by (simp add: count_list_0_iff)
    with val[of c] look[OF that(1)] show ?thesis by auto
  qed
  have "map snd ?pr = map ?P ?cs"
    by (simp add: estimate_class_priors_eq[OF assms(1)] comp_def del: upt_Suc)
  also have "\<dots> = map Fin (map (\<lambda>c. the_real (?P c)) ?cs)"
    by (simp only: map_map comp_def fin)
  finally have "fsum (map snd ?pr) = Fin (\<Sum>c\<leftarrow>?cs. the_real (?P c))"
    by (simp only: fsum_map_Fin)
  moreover have "near 3 (\<Sum>c\<leftarrow>?cs. the_real (?P c)) (\<Sum>c\<leftarrow>?cs. ?x c)"
    by (rule near_sum_list) (rule nr)
  moreover have "(\<Sum>c\<leftarrow>?cs. ?x c) = 1"
    using assms(1) by (simp only: sum_list_div_const sum_counts_upto[OF assms(1)]) simp
  ultimately have s: "\<exists>s. fsum (map snd ?pr) = Fin s \<and> \<bar>s - 1\<bar> \<le> 1 / 2 ^ 21"
    using near_abs3[of "\<Sum>c\<leftarrow>?cs. the_real (?P c)" 1] by auto
  show ?thesis
    using keys a zero s fit_priors[of self features labels delta]
    by blast
qed

lemma priors_2_0:
  "class_priors (snd (fit NaiveBayes_init example_features [2, 0] (Fin 1))) =
     Some [(0, Fin (1 / 2)), (1, Fin 0), (2, Fin (1 / 2))]"
  by (simp add: fit_priors estimate_class_priors_def bincount_def fdiv32_def f32_values
      eval_nat_numeral)

theorem fit_class_priors_witness:
  "[2, 0] \<noteq> ([] :: nat list) \<and> length [2, 0 :: nat] < 2 ^ 63 \<and>
   class_priors (snd (fit NaiveBayes_init example_features [2, 0] (Fin 1))) =
     Some [(0, Fin (1 / 2)), (1, Fin 0), (2, Fin (1 / 2))]"
  using fit_class_priors[of "[2, 0]" NaiveBayes_init example_features "Fin 1"] priors_2_0
  by simp

text \<open>
  The claim as stated fails: for the labels \<open>[0, 0, 1]\<close> the stored priors are the float32
  numbers nearest to \<open>2/3\<close> and \<open>1/3\<close>, which are neither \<open>2/3\<close> and \<open>1/3\<close> nor of sum 1.
\<close>

theorem fit_class_priors_rounded_counterexample:
  "class_priors (snd (fit NaiveBayes_init \<lparr>ncols = 1, rows = [[Fin 1], [Fin 1], [Fin 1]]\<rparr>
       [0, 0, 1] (Fin 1))) =
     Some [(0, Fin (11184811 / 2 ^ 24)), (1, Fin (11184811 / 2 ^ 25))] \<and>
   (11184811 / 2 ^ 24 :: real) \<noteq> 2 / 3 \<and>
   (11184811 / 2 ^ 24 + 11184811 / 2 ^ 25 :: real) \<noteq> 1"
proof -
  have "class_priors (snd (fit NaiveBayes_init \<lparr>ncols = 1, rows = [[Fin 1], [Fin 1], [Fin 1]]\<rparr>
       [0, 0, 1] (Fin 1))) =
     Some [(0, Fin (11184811 / 2 ^ 24)), (1, Fin (11184811 / 2 ^ 25))]"
    by (simp add: fit_priors estimate_class_priors_def bincount_def fdiv32_def f32_values
        eval_nat_numeral)
  then show ?thesis by simp
qed

subsection \<open>Conditional probabilities\<close>

lemma is_count_nat: "is_count x \<Longrightarrow> \<exists>n::nat. x = Fin (real n)"
proof (cases x)
  case (Fin a)
  assume "is_count x"
  with Fin have a: "0 \<le> a" "a = of_int \<lfloor>a\<rfloor>" by simp_all
  then have "0 \<le> \<lfloor>a\<rfloor>" by simp
  then have "real (nat \<lfloor>a\<rfloor>) = of_int \<lfloor>a\<rfloor>" by simp
  with a(2) Fin show ?thesis by (intro exI[of _ "nat \<lfloor>a\<rfloor>"]) simp
qed simp_all

lemma is_count_real [simp]: "is_count (Fin (real n))"
  by simp

lemma fsum32_Cons: "fsum32 (x # xs) = fadd32 x (fsum32 xs)"
  by (simp add: fsum32_def)

lemma fsum32_counts:
  assumes "list_all is_count xs" "(\<Sum>x\<leftarrow>xs. the_real x) \<le> 2 ^ 24"
  shows "\<exists>n::nat. fsum32 xs = Fin (real n) \<and> (\<Sum>x\<leftarrow>xs. the_real x) = real n"
  using assms
proof (induction xs)
  case Nil
  then show ?case by (intro exI[of _ 0]) (simp add: fsum32_def)
next
  case (Cons x xs)
  from Cons.prems(1) obtain a :: nat where a: "x = Fin (real a)"
    using is_count_nat[of x] by auto
  have "(\<Sum>x\<leftarrow>xs. the_real x) \<le> real a + (\<Sum>x\<leftarrow>xs. the_real x)" by simp
  also have "\<dots> \<le> 2 ^ 24" using Cons.prems(2) a by simp
  finally have "(\<Sum>x\<leftarrow>xs. the_real x) \<le> 2 ^ 24" .
  with Cons.IH Cons.prems(1) obtain n :: nat where
    n: "fsum32 xs = Fin (real n)" "(\<Sum>x\<leftarrow>xs. the_real x) = real n" by auto
  have "real (a + n) \<le> 2 ^ 24" using Cons.prems(2) a n(2) by simp
  then have "a + n \<le> 2 ^ 24" by (simp only: of_nat_le_numeral_power_cancel_iff)
  then have "fadd32 (Fin (real a)) (Fin (real n)) = Fin (real (a + n))"
    by (rule fadd32_nat)
  then show ?case using a n by (intro exI[of _ "a + n"]) (simp add: fsum32_Cons)
qed

lemma sum_list_swap_real:
  "(\<Sum>x\<leftarrow>xs. \<Sum>y\<leftarrow>ys. (f x y :: real)) = (\<Sum>y\<leftarrow>ys. \<Sum>x\<leftarrow>xs. f x y)"
  by (induction xs) (simp_all add: sum_list_addf)

lemma sum_list_filter_le:
  "(\<And>x. x \<in> set xs \<Longrightarrow> 0 \<le> (f x :: real)) \<Longrightarrow>
   (\<Sum>x\<leftarrow>filter P xs. f x) \<le> (\<Sum>x\<leftarrow>xs. f x)"
  by (induction xs) (auto simp: add_increasing)

lemma sum_list_nth_upt: "(\<Sum>i\<leftarrow>[0..<length xs]. f (xs ! i)) = (\<Sum>x\<leftarrow>xs. f x)"
proof -
  have "map (\<lambda>i. f (xs ! i)) [0..<length xs] = map f (map ((!) xs) [0..<length xs])"
    by simp
  then show ?thesis by (simp only: map_nth)
qed

lemma member_le_sum_list_real:
  "(\<And>x. x \<in> set xs \<Longrightarrow> 0 \<le> (f x :: real)) \<Longrightarrow> y \<in> set xs \<Longrightarrow> f y \<le> (\<Sum>x\<leftarrow>xs. f x)"
proof (induction xs)
  case Nil
  then show ?case by simp
next
  case (Cons x xs)
  have nn: "0 \<le> (\<Sum>x\<leftarrow>xs. f x)"
    using Cons.prems(1) by (intro sum_list_nonneg) auto
  show ?case
  proof (cases "y = x")
    case True
    then show ?thesis using nn by simp
  next
    case False
    then have "f y \<le> (\<Sum>x\<leftarrow>xs. f x)"
      using Cons by auto
    moreover have "0 \<le> f x" using Cons.prems(1) by simp
    ultimately show ?thesis by simp
  qed
qed

lemma class_counts:
  assumes wf: "wf_matrix features" and cm: "count_matrix features"
    and tot: "matrix_total features \<le> 2 ^ 24"
    and len: "length labels = length (rows features)"
  shows "class_word_counts features labels c =
           map (\<lambda>w. Fin (spec_count features labels c w)) [0..<ncols features]"
    and "fsum32 (class_word_counts features labels c) =
           Fin (\<Sum>w\<leftarrow>[0..<ncols features]. spec_count features labels c w)"
    and "(\<Sum>w\<leftarrow>[0..<ncols features]. spec_count features labels c w) \<le> 2 ^ 24"
    and "w < ncols features \<Longrightarrow> 0 \<le> spec_count features labels c w"
    and "w < ncols features \<Longrightarrow> spec_count features labels c w
           \<le> (\<Sum>w\<leftarrow>[0..<ncols features]. spec_count features labels c w)"
proof -
  let ?V = "ncols features"
  let ?rs = "rows features"
  let ?n = "length labels"
  let ?idx = "filter (\<lambda>i. labels ! i = c) [0..<?n]"
  let ?a = "\<lambda>i w. the_real (?rs ! i ! w)"
  let ?k = "\<lambda>w. spec_count features labels c w"
  have rowlen: "length (?rs ! i) = ?V" if "i < ?n" for i
    using wf that len by (simp add: wf_matrix_def list_all_length)
  have cnt: "is_count (?rs ! i ! w)" if "i < ?n" "w < ?V" for i w
    using cm that len rowlen[OF that(1)] by (simp add: count_matrix_def list_all_length)
  have a0: "0 \<le> ?a i w" if "i < ?n" "w < ?V" for i w
    using is_count_nat[OF cnt[OF that]] by auto
  have idx: "i < ?n" if "i \<in> set ?idx" for i
    using that by simp
  have k0: "0 \<le> ?k w" if "w < ?V" for w
    unfolding spec_count_def using a0[OF idx that] by (intro sum_list_nonneg) auto
  have rowsum: "(\<Sum>x\<leftarrow>?rs ! i. the_real x) = (\<Sum>w\<leftarrow>[0..<?V]. ?a i w)" if "i < ?n" for i
    using sum_list_nth_upt[of the_real "?rs ! i"] rowlen[OF that] by simp
  have "matrix_total features = (\<Sum>i\<leftarrow>[0..<length ?rs]. \<Sum>x\<leftarrow>?rs ! i. the_real x)"
    unfolding matrix_total_def
    by (rule sum_list_nth_upt[of "\<lambda>r. \<Sum>x\<leftarrow>r. the_real x" ?rs, symmetric])
  also have "\<dots> = (\<Sum>i\<leftarrow>[0..<?n]. \<Sum>w\<leftarrow>[0..<?V]. ?a i w)"
    unfolding len[symmetric]
    by (intro arg_cong[of _ _ sum_list] map_cong refl rowsum) simp
  finally have total: "matrix_total features = (\<Sum>i\<leftarrow>[0..<?n]. \<Sum>w\<leftarrow>[0..<?V]. ?a i w)" .
  have "(\<Sum>w\<leftarrow>[0..<?V]. ?k w) = (\<Sum>i\<leftarrow>?idx. \<Sum>w\<leftarrow>[0..<?V]. ?a i w)"
    unfolding spec_count_def by (rule sum_list_swap_real)
  also have "\<dots> \<le> (\<Sum>i\<leftarrow>[0..<?n]. \<Sum>w\<leftarrow>[0..<?V]. ?a i w)"
  proof (rule sum_list_filter_le)
    fix i assume "i \<in> set [0..<?n]"
    then have "i < ?n" by simp
    then show "0 \<le> (\<Sum>w\<leftarrow>[0..<?V]. ?a i w)"
      using a0 by (intro sum_list_nonneg) auto
  qed
  finally show S: "(\<Sum>w\<leftarrow>[0..<?V]. ?k w) \<le> 2 ^ 24"
    using tot total by simp
  show kS: "?k w \<le> (\<Sum>w\<leftarrow>[0..<?V]. ?k w)" if "w < ?V" for w
    using k0 that by (intro member_le_sum_list_real[of "[0..<?V]" ?k w]) simp_all
  show "0 \<le> ?k w" if "w < ?V" for w
    by (rule k0[OF that])
  have "filter ((!) (map (\<lambda>l. l = c) labels)) [0..<?n] = ?idx"
    by (intro filter_cong refl) simp
  then have masked: "map fst (filter snd (zip ?rs (map (\<lambda>l. l = c) labels))) = map ((!) ?rs) ?idx"
    using mask_nth[of ?rs "map (\<lambda>l. l = c) labels"] len by simp
  have col: "fsum32 (map (\<lambda>r. r ! w) (map ((!) ?rs) ?idx)) = Fin (?k w)" if w: "w < ?V" for w
  proof -
    have m: "map (\<lambda>r. r ! w) (map ((!) ?rs) ?idx) = map (\<lambda>i. ?rs ! i ! w) ?idx"
      by simp
    have "list_all is_count (map (\<lambda>i. ?rs ! i ! w) ?idx)"
      using cnt[OF idx w] by (simp add: list_all_iff)
    moreover have s: "(\<Sum>x\<leftarrow>map (\<lambda>i. ?rs ! i ! w) ?idx. the_real x) = ?k w"
      by (simp add: spec_count_def comp_def)
    moreover have "?k w \<le> 2 ^ 24" using kS[OF w] S by linarith
    ultimately obtain n :: nat where
      "fsum32 (map (\<lambda>i. ?rs ! i ! w) ?idx) = Fin (real n)" "?k w = real n"
      using fsum32_counts[of "map (\<lambda>i. ?rs ! i ! w) ?idx"] by auto
    then show ?thesis unfolding m by simp
  qed
  show cw: "class_word_counts features labels c = map (\<lambda>w. Fin (?k w)) [0..<?V]"
    unfolding class_word_counts_def sum_dim0_def masked
    by (intro map_cong refl col) simp
  have nat_k: "\<exists>n::nat. ?k w = real n" if w: "w < ?V" for w
  proof -
    have "list_all is_count (map (\<lambda>i. ?rs ! i ! w) ?idx)"
      using cnt[OF idx w] by (simp add: list_all_iff)
    moreover have "(\<Sum>x\<leftarrow>map (\<lambda>i. ?rs ! i ! w) ?idx. the_real x) = ?k w"
      by (simp add: spec_count_def comp_def)
    moreover have "?k w \<le> 2 ^ 24" using kS[OF w] S by linarith
    ultimately show ?thesis
      using fsum32_counts[of "map (\<lambda>i. ?rs ! i ! w) ?idx"] by auto
  qed
  have "list_all is_count (map (\<lambda>w. Fin (?k w)) [0..<?V])"
  proof -
    have "is_count (Fin (?k w))" if "w < ?V" for w
      using nat_k[OF that] by auto
    then show ?thesis by (simp add: list_all_iff)
  qed
  moreover have "(\<Sum>x\<leftarrow>map (\<lambda>w. Fin (?k w)) [0..<?V]. the_real x) = (\<Sum>w\<leftarrow>[0..<?V]. ?k w)"
    by (simp add: comp_def)
  ultimately obtain n :: nat where
    "fsum32 (map (\<lambda>w. Fin (?k w)) [0..<?V]) = Fin (real n)" "(\<Sum>w\<leftarrow>[0..<?V]. ?k w) = real n"
    using fsum32_counts[of "map (\<lambda>w. Fin (?k w)) [0..<?V]"] S by auto
  then show "fsum32 (class_word_counts features labels c) = Fin (\<Sum>w\<leftarrow>[0..<?V]. ?k w)"
    unfolding cw by simp
qed













subsection \<open>The outcome of \<open>fit\<close>\<close>

text \<open>
  Claim C6, as amended. \<open>fit\<close> never inspects \<open>delta\<close>: whether it raises depends on the
  labels and on the number of rows only (\<open>RuntimeError\<close> for an empty label vector,
  \<open>IndexError\<close> for a label vector whose length is not the number of rows). On every other
  training set it succeeds for every \<open>delta\<close>, negative ones included, and leaves the model
  trained.
\<close>

theorem fit_ignores_delta:
  "fst (fit self features labels delta) =
     (if labels = [] then Some RuntimeError
      else if length labels \<noteq> length (rows features) then Some IndexError else None) \<and>
   (labels \<noteq> [] \<and> length labels = length (rows features) \<longrightarrow>
      \<not> falsy (class_priors (snd (fit self features labels delta))) \<and>
      \<not> falsy (conditional_probabilities (snd (fit self features labels delta))) \<and>
      vocab_size (snd (fit self features labels delta)) = Some (ncols features))"
proof -
  have "estimate_class_priors labels \<noteq> []" if "labels \<noteq> []"
    by (simp add: estimate_class_priors_eq[OF that] del: upt_Suc)
  then show ?thesis
    by (auto simp: fit_outcome fit_ok falsy_def trained_cond_def simp del: upt_Suc)
qed

theorem fit_ignores_delta_witness:
  "[1, 0] \<noteq> ([] :: nat list) \<and> length [1, 0 :: nat] = length (rows example_features) \<and>
   fst (fit NaiveBayes_init example_features [1, 0] (Fin (- 1))) = None \<and>
   \<not> falsy (conditional_probabilities (snd (fit NaiveBayes_init example_features [1, 0] (Fin (- 1)))))"
  using fit_ignores_delta[of NaiveBayes_init example_features "[1, 0]" "Fin (- 1)"]
  by (simp add: example_features_def)

text \<open>
  The claim as stated fails: with \<open>delta = -1\<close> on the end-to-end training set \<open>fit\<close>
  raises nothing and stores priors and conditional probabilities.
\<close>

theorem fit_negative_delta_counterexample:
  "fit NaiveBayes_init example_features [1, 0] (Fin (- 1)) =
     (None, \<lparr>class_priors = Some [(0, Fin (1 / 2)), (1, Fin (1 / 2))],
             conditional_probabilities =
               Some [(0, [Fin 1, Fin 0, Fin 0]), (1, [Fin 0, Fin 0, Fin 1])],
             vocab_size = Some 3\<rparr>)"
  by (simp add: example_features_def fit_unfold)

section \<open>Inference\<close>

lemma broadcast_mul_cases:
  "broadcast_mul xs ys = Inl e \<Longrightarrow> e = RuntimeError \<and> \<not> broadcasts (length xs) (length ys)"
  "\<not> broadcasts (length xs) (length ys) \<Longrightarrow> broadcast_mul xs ys = Inl RuntimeError"
  "broadcasts (length xs) (length ys) \<Longrightarrow> \<exists>zs. broadcast_mul xs ys = Inr zs"
  "length xs = length ys \<Longrightarrow> broadcast_mul xs ys = Inr (map2 fmul xs ys)"
  by (auto simp: broadcast_mul_def broadcasts_def split: if_splits)

lemma posteriors_loop_errors:
  "posteriors_loop pr cp f lp = Inl e \<Longrightarrow> e = KeyError \<or> e = RuntimeError"
proof (induction pr arbitrary: lp)
  case Nil
  then show ?case by simp
next
  case (Cons a pr)
  obtain c p where a: "a = (c, p)" by (cases a)
  show ?case
    using Cons.prems Cons.IH unfolding a
    by (auto simp: Let_def split: option.splits sum.splits dest: broadcast_mul_cases(1))
qed

lemma posteriors_loop_ok:
  assumes "\<forall>(c, p) \<in> set pr. \<exists>v. map_of cp c = Some v \<and> length v = n"
    and "broadcasts (length f) n"
  shows "\<exists>lp'. posteriors_loop pr cp f lp = Inr lp' \<and> dom lp' = dom lp \<union> fst ` set pr"
  using assms(1)
proof (induction pr arbitrary: lp)
  case Nil
  then show ?case by simp
next
  case (Cons a pr)
  obtain c p where a: "a = (c, p)" by (cases a)
  from Cons.prems a obtain v where v: "map_of cp c = Some v" "length v = n" by auto
  from broadcast_mul_cases(3)[of f "map flog v"] assms(2) v(2)
  obtain zs where zs: "broadcast_mul f (map flog v) = Inr zs" by auto
  have "\<forall>(c, p) \<in> set pr. \<exists>v. map_of cp c = Some v \<and> length v = n"
    using Cons.prems by simp
  from Cons.IH[OF this, of "lp(c \<mapsto> fadd (flog p) (fsum zs))"]
  obtain lp' where lp': "posteriors_loop pr cp f (lp(c \<mapsto> fadd (flog p) (fsum zs))) = Inr lp'"
    "dom lp' = dom (lp(c \<mapsto> fadd (flog p) (fsum zs))) \<union> fst ` set pr"
    by blast
  have "posteriors_loop (a # pr) cp f lp = Inr lp'"
    unfolding a using v zs lp'(1) by (simp add: Let_def)
  moreover have "dom lp' = dom lp \<union> fst ` set (a # pr)"
    unfolding lp'(2) a by auto
  ultimately show ?case by blast
qed

lemma posteriors_loop_bad:
  assumes "map_of cp c = Some v" "\<not> broadcasts (length f) (length v)"
  shows "posteriors_loop ((c, p) # pr) cp f lp = Inl RuntimeError"
  using assms broadcast_mul_cases(2)[of f "map flog v"] by (simp add: Let_def)

lemma posteriors_loop_scores:
  assumes "distinct (map fst pr)"
    and "\<forall>(c, p) \<in> set pr. \<exists>v. map_of cp c = Some v \<and> length v = length f"
  shows "posteriors_loop pr cp f lp =
     Inr (\<lambda>c. case map_of pr c of None \<Rightarrow> lp c
               | Some p \<Rightarrow> Some (class_score p (the (map_of cp c)) f))"
  using assms
proof (induction pr arbitrary: lp)
  case Nil
  then show ?case by simp
next
  case (Cons a pr)
  obtain c p where a: "a = (c, p)" by (cases a)
  from Cons.prems a obtain v where v: "map_of cp c = Some v" "length v = length f" by auto
  have bm: "broadcast_mul f (map flog v) = Inr (map2 fmul f (map flog v))"
    using v(2) by (intro broadcast_mul_cases(4)) simp
  have d: "distinct (map fst pr)" and notin: "map_of pr c = None"
    using Cons.prems(1) a by (auto simp: map_of_eq_None_iff)
  have rest: "\<forall>(c, p) \<in> set pr. \<exists>v. map_of cp c = Some v \<and> length v = length f"
    using Cons.prems(2) by simp
  let ?lp = "lp(c \<mapsto> fadd (flog p) (fsum (map2 fmul f (map flog v))))"
  have step: "posteriors_loop (a # pr) cp f lp = posteriors_loop pr cp f ?lp"
    unfolding a using v bm by (simp add: Let_def)
  have "(\<lambda>k. case map_of pr k of None \<Rightarrow> ?lp k
               | Some p \<Rightarrow> Some (class_score p (the (map_of cp k)) f)) =
        (\<lambda>k. case map_of (a # pr) k of None \<Rightarrow> lp k
               | Some p \<Rightarrow> Some (class_score p (the (map_of cp k)) f))"
    unfolding a using notin v by (auto simp: fun_eq_iff class_score_def split: option.splits)
  then show ?case
    unfolding step Cons.IH[OF d rest, of ?lp] by simp
qed

lemma posteriors_length:
  "estimate_class_posteriors m f = Inr v \<Longrightarrow> length v = 2"
  by (auto simp: estimate_class_posteriors_def split: option.splits sum.splits)

lemma posteriors_errors:
  "estimate_class_posteriors m f = Inl e \<Longrightarrow> e = ValueError \<or> e = KeyError \<or> e = RuntimeError"
  by (auto simp: estimate_class_posteriors_def split: option.splits sum.splits
      dest: posteriors_loop_errors)

lemma posteriors_not_falsy:
  assumes "estimate_class_posteriors m f = Inr v"
  shows "\<not> falsy (class_priors m) \<and> \<not> falsy (conditional_probabilities m)"
proof -
  from assms obtain cp pr where s: "conditional_probabilities m = Some cp" "class_priors m = Some pr"
    by (auto simp: estimate_class_posteriors_def split: option.splits)
  have "pr \<noteq> []"
    using assms s by (auto simp: estimate_class_posteriors_def)
  then obtain c p rest where pr: "pr = (c, p) # rest"
    by (cases pr) auto
  have "cp \<noteq> []"
    using assms s unfolding pr by (auto simp: estimate_class_posteriors_def)
  then show ?thesis using s \<open>pr \<noteq> []\<close> by (simp add: falsy_def)
qed

lemma argmax_two: "argmax [a, b] = Inr (if fle b a then 0 else 1)"
  by (simp add: argmax_def)

lemma fle_refl: "fle x x"
  by (cases x) simp_all

lemma fle_total: "\<not> fle x y \<Longrightarrow> fle y x"
  by (cases x; cases y) simp_all

lemma fle_trans: "fle x y \<Longrightarrow> fle y z \<Longrightarrow> fle x z"
  by (cases x; cases y; cases z) simp_all

lemma argmax_loop_spec:
  assumes "bi < length pre" "b = pre ! bi"
    and "\<forall>j < length pre. fle (pre ! j) b"
    and "\<forall>j < bi. \<not> fle b (pre ! j)"
  shows "argmax_loop xs (length pre) bi b < length (pre @ xs) \<and>
     (\<forall>j < length (pre @ xs). fle ((pre @ xs) ! j) ((pre @ xs) ! argmax_loop xs (length pre) bi b)) \<and>
     (\<forall>j < argmax_loop xs (length pre) bi b.
        \<not> fle ((pre @ xs) ! argmax_loop xs (length pre) bi b) ((pre @ xs) ! j))"
  using assms
proof (induction xs arbitrary: pre bi b)
  case Nil
  then show ?case by simp
next
  case (Cons x xs)
  let ?pre = "pre @ [x]"
  show ?case
  proof (cases "fle x b")
    case True
    have 1: "bi < length ?pre" using Cons.prems(1) by simp
    have 2: "b = ?pre ! bi" using Cons.prems(1,2) by (simp add: nth_append)
    have 3: "\<forall>j < length ?pre. fle (?pre ! j) b"
      using Cons.prems(3) True by (auto simp: nth_append less_Suc_eq)
    have 4: "\<forall>j < bi. \<not> fle b (?pre ! j)"
      using Cons.prems(1,4) by (auto simp: nth_append)
    from Cons.IH[OF 1 2 3 4] True show ?thesis by simp
  next
    case False
    have bx: "fle b x" using False by (rule fle_total)
    have 1: "length pre < length ?pre" by simp
    have 2: "x = ?pre ! length pre" by simp
    have 3: "\<forall>j < length ?pre. fle (?pre ! j) x"
      using Cons.prems(3) bx by (auto simp: nth_append less_Suc_eq fle_refl intro: fle_trans)
    have 4: "\<forall>j < length pre. \<not> fle x (?pre ! j)"
    proof (intro allI impI notI)
      fix j assume j: "j < length pre" and "fle x (?pre ! j)"
      then have "fle x (pre ! j)" by (simp add: nth_append)
      moreover have "fle (pre ! j) b" using Cons.prems(3) j by simp
      ultimately have "fle x b" by (rule fle_trans)
      with False show False by simp
    qed
    from Cons.IH[OF 1 2 3 4] False show ?thesis by simp
  qed
qed

lemma argmax_spec:
  assumes "v \<noteq> []"
  shows "\<exists>k. argmax v = Inr k \<and> k < length v \<and> (\<forall>j < length v. fle (v ! j) (v ! k)) \<and>
     (\<forall>j < k. \<not> fle (v ! k) (v ! j))"
proof -
  from assms obtain x xs where v: "v = x # xs" by (cases v) auto
  from argmax_loop_spec[of 0 "[x]" x xs] show ?thesis
    unfolding v by (simp add: argmax_def fle_refl)
qed

lemma priors_keys:
  assumes "labels \<noteq> []"
  shows "\<forall>(c, p) \<in> set (estimate_class_priors labels).
           \<exists>v. map_of (trained_cond features labels delta) c = Some v \<and> length v = ncols features"
  unfolding estimate_class_priors_eq[OF assms] using trained_cond_row by auto

lemma priors_head:
  assumes "labels \<noteq> []"
  shows "\<exists>p rest. estimate_class_priors labels = (0, p) # rest"
  unfolding estimate_class_priors_eq[OF assms] by (simp add: upt_conv_Cons del: upt_Suc)

lemma priors_fst:
  assumes "labels \<noteq> []"
  shows "map fst (estimate_class_priors labels) = [0..<Suc (Max (set labels))]"
  by (simp add: estimate_class_priors_eq[OF assms] comp_def del: upt_Suc)

lemma priors_distinct:
  assumes "labels \<noteq> []"
  shows "distinct (map fst (estimate_class_priors labels))"
  by (simp only: priors_fst[OF assms] distinct_upt)

lemma priors_dom:
  assumes "labels \<noteq> []"
  shows "fst ` set (estimate_class_priors labels) = {0..<Suc (Max (set labels))}"
proof -
  have "fst ` set (estimate_class_priors labels) = set (map fst (estimate_class_priors labels))"
    by simp
  also have "\<dots> = {0..<Suc (Max (set labels))}"
    by (simp only: priors_fst[OF assms] set_upt)
  finally show ?thesis .
qed

lemma trained_fields:
  assumes "fit self features labels delta = (None, m)"
  shows "labels \<noteq> []" "class_priors m = Some (estimate_class_priors labels)"
    "conditional_probabilities m = Some (trained_cond features labels delta)"
    "vocab_size m = Some (ncols features)"
  using fit_NoneD[OF assms] by simp_all

lemma trained_not_falsy:
  assumes "fit self features labels delta = (None, m)"
  shows "\<not> falsy (class_priors m)" "\<not> falsy (conditional_probabilities m)"
  using trained_fields[OF assms] priors_head[of labels]
  by (auto simp: falsy_def trained_cond_def simp del: upt_Suc)

lemma trained_runtime_error:
  assumes "fit self features labels delta = (None, m)"
  shows "estimate_class_posteriors m f = Inl RuntimeError \<longleftrightarrow>
         \<not> broadcasts (length f) (ncols features)"
proof (cases "broadcasts (length f) (ncols features)")
  case True
  note t = trained_fields[OF assms]
  from posteriors_loop_ok[OF priors_keys[OF t(1), of features delta] True, of Map.empty]
  obtain lp' where "posteriors_loop (estimate_class_priors labels) (trained_cond features labels delta) f Map.empty = Inr lp'"
    by blast
  then have "estimate_class_posteriors m f \<noteq> Inl RuntimeError"
    using t by (simp add: estimate_class_posteriors_def split: option.splits)
  then show ?thesis using True by simp
next
  case False
  note t = trained_fields[OF assms]
  from priors_head[OF t(1)] obtain p rest where pr: "estimate_class_priors labels = (0, p) # rest"
    by blast
  from priors_keys[OF t(1), of features delta] pr obtain v where
    v: "map_of (trained_cond features labels delta) 0 = Some v" "length v = ncols features"
    by auto
  have "posteriors_loop ((0, p) # rest) (trained_cond features labels delta) f Map.empty = Inl RuntimeError"
    using v False by (intro posteriors_loop_bad[of _ _ v]) simp_all
  then have "estimate_class_posteriors m f = Inl RuntimeError"
    using t pr by (simp add: estimate_class_posteriors_def)
  then show ?thesis using False by simp
qed

lemma trained_predict:
  assumes "fit self features labels delta = (None, m)"
  shows "predict m f = (case estimate_class_posteriors m f of Inl e \<Rightarrow> Inl e
                        | Inr lp \<Rightarrow> Inr (if fle (lp ! 1) (lp ! 0) then 0 else 1))"
    "predict_proba m f = (case estimate_class_posteriors m f of Inl e \<Rightarrow> Inl e
                        | Inr lp \<Rightarrow> Inr (softmax lp))"
proof -
  have two: "\<exists>a b. lp = [a, b]" if "estimate_class_posteriors m f = Inr lp" for lp
    using that by (auto simp: estimate_class_posteriors_def split: option.splits sum.splits)
  show "predict m f = (case estimate_class_posteriors m f of Inl e \<Rightarrow> Inl e
                        | Inr lp \<Rightarrow> Inr (if fle (lp ! 1) (lp ! 0) then 0 else 1))"
    using trained_not_falsy[OF assms] two
    by (auto simp: predict_def argmax_two split: sum.splits)
  show "predict_proba m f = (case estimate_class_posteriors m f of Inl e \<Rightarrow> Inl e
                        | Inr lp \<Rightarrow> Inr (softmax lp))"
    using trained_not_falsy[OF assms] by (simp add: predict_proba_def)
qed

lemma trained_posteriors:
  assumes "fit self features labels delta = (None, m)" "1 \<le> Max (set labels)"
    "length f = ncols features"
  shows "\<exists>p0 p1 v0 v1. map_of (estimate_class_priors labels) 0 = Some p0 \<and>
      map_of (estimate_class_priors labels) 1 = Some p1 \<and>
      map_of (trained_cond features labels delta) 0 = Some v0 \<and>
      map_of (trained_cond features labels delta) 1 = Some v1 \<and>
      estimate_class_posteriors m f = Inr [class_score p0 v0 f, class_score p1 v1 f]"
proof -
  note t = trained_fields[OF assms(1)]
  let ?pr = "estimate_class_priors labels"
  let ?cp = "trained_cond features labels delta"
  have keys: "\<forall>(c, p) \<in> set ?pr. \<exists>v. map_of ?cp c = Some v \<and> length v = length f"
    using priors_keys[OF t(1), of features delta] assms(3) by simp
  have in01: "0 \<in> fst ` set ?pr" "1 \<in> fst ` set ?pr"
    using assms(2) by (simp_all add: priors_dom[OF t(1)] del: upt_Suc)
  then obtain p0 p1 where p: "map_of ?pr 0 = Some p0" "map_of ?pr 1 = Some p1"
    by (metis domD dom_map_of_conv_image_fst)
  then have mem: "(0, p0) \<in> set ?pr" "(1, p1) \<in> set ?pr"
    by (auto dest: map_of_SomeD)
  from keys mem(1) obtain v0 where v0: "map_of ?cp 0 = Some v0" by blast
  from keys mem(2) obtain v1 where v1: "map_of ?cp 1 = Some v1" by blast
  have loop: "posteriors_loop ?pr ?cp f Map.empty =
     Inr (\<lambda>c. case map_of ?pr c of None \<Rightarrow> None
               | Some p \<Rightarrow> Some (class_score p (the (map_of ?cp c)) f))"
    by (rule posteriors_loop_scores[OF priors_distinct[OF t(1)] keys])
  have "estimate_class_posteriors m f = Inr [class_score p0 v0 f, class_score p1 v1 f]"
    unfolding estimate_class_posteriors_def t(2,3) using p v0 v1 by (simp add: loop)
  with p v0 v1 show ?thesis by blast
qed

lemma example_model_eq:
  "example_model =
     \<lparr>class_priors = Some [(0, Fin (1 / 2)), (1, Fin (1 / 2))],
      conditional_probabilities =
        Some [(0, [Fin (13421773 / 2 ^ 26), Fin (13421773 / 2 ^ 25), Fin (13421773 / 2 ^ 25)]),
              (1, [Fin (13421773 / 2 ^ 25), Fin (13421773 / 2 ^ 25), Fin (13421773 / 2 ^ 26)])],
      vocab_size = Some 3\<rparr>"
  by (simp add: example_model_def example_features_def fit_unfold)

lemma example_fit:
  "fit NaiveBayes_init example_features [1, 0] (Fin 1) = (None, example_model)"
  unfolding example_model_def by (simp add: fit_ok example_features_def)

lemma three_class_model_eq:
  "three_class_model =
     \<lparr>class_priors =
        Some [(0, Fin (11184811 / 2 ^ 25)), (1, Fin (11184811 / 2 ^ 25)),
              (2, Fin (11184811 / 2 ^ 25))],
      conditional_probabilities =
        Some [(0, [Fin (11184811 / 2 ^ 24), Fin (11184811 / 2 ^ 25)]),
              (1, [Fin (11184811 / 2 ^ 25), Fin (11184811 / 2 ^ 24)]),
              (2, [Fin (1 / 2), Fin (1 / 2)])],
      vocab_size = Some 2\<rparr>"
  by (simp add: three_class_model_def three_class_features_def fit_unfold)

lemma three_class_fit:
  "fit NaiveBayes_init three_class_features [0, 1, 2] (Fin 1) = (None, three_class_model)"
  unfolding three_class_model_def by (simp add: fit_ok three_class_features_def)

lemma softmax_length: "length (softmax v) = length v"
  by (cases v) (simp_all add: softmax_def Let_def)

lemma trained_no_value_error:
  assumes "fit self features labels delta = (None, m)"
  shows "estimate_class_posteriors m f \<noteq> Inl ValueError"
    "estimate_class_posteriors m f \<noteq> Inl Exception"
proof -
  note t = trained_fields[OF assms]
  show "estimate_class_posteriors m f \<noteq> Inl ValueError"
    unfolding estimate_class_posteriors_def t(2,3)
    by (auto split: sum.splits option.splits dest: posteriors_loop_errors)
  show "estimate_class_posteriors m f \<noteq> Inl Exception"
    using posteriors_errors[of m f Exception] by auto
qed

text \<open>
  Claim C7. On a model on which \<open>fit\<close> was never called every inference operation
  raises the error of an untrained model: \<open>estimate_class_posteriors\<close> raises
  \<open>ValueError\<close>, \<open>predict\<close> and \<open>predict_proba\<close> raise \<open>Exception\<close>. After a successful
  \<open>fit\<close> none of the three raises either of them, whatever the feature vector.
\<close>

theorem untrained_error:
  "estimate_class_posteriors NaiveBayes_init f = Inl ValueError \<and>
   predict NaiveBayes_init f = Inl Exception \<and>
   predict_proba NaiveBayes_init f = Inl Exception \<and>
   (fit self features labels delta = (None, m) \<longrightarrow>
      estimate_class_posteriors m f \<noteq> Inl ValueError \<and>
      estimate_class_posteriors m f \<noteq> Inl Exception \<and>
      predict m f \<noteq> Inl ValueError \<and> predict m f \<noteq> Inl Exception \<and>
      predict_proba m f \<noteq> Inl ValueError \<and> predict_proba m f \<noteq> Inl Exception)"
proof -
  have untrained: "estimate_class_posteriors NaiveBayes_init f = Inl ValueError"
    "predict NaiveBayes_init f = Inl Exception"
    "predict_proba NaiveBayes_init f = Inl Exception"
    by (simp_all add: estimate_class_posteriors_def predict_def predict_proba_def
        NaiveBayes_init_def falsy_def)
  have trained: "estimate_class_posteriors m f \<noteq> Inl ValueError \<and>
      estimate_class_posteriors m f \<noteq> Inl Exception \<and>
      predict m f \<noteq> Inl ValueError \<and> predict m f \<noteq> Inl Exception \<and>
      predict_proba m f \<noteq> Inl ValueError \<and> predict_proba m f \<noteq> Inl Exception"
    if ok: "fit self features labels delta = (None, m)"
    using trained_no_value_error[OF ok, of f]
    by (auto simp: trained_predict[OF ok] split: sum.splits)
  show ?thesis using untrained trained by blast
qed

theorem untrained_error_witness:
  "fit NaiveBayes_init example_features [1, 0] (Fin 1) = (None, example_model) \<and>
   predict NaiveBayes_init [Fin 0, Fin 0, Fin 1] = Inl Exception \<and>
   predict example_model [Fin 0, Fin 0, Fin 1] \<noteq> Inl Exception \<and>
   estimate_class_posteriors example_model [Fin 0, Fin 0, Fin 1] \<noteq> Inl ValueError"
  using untrained_error[of "[Fin 0, Fin 0, Fin 1]" NaiveBayes_init example_features "[1, 0]" "Fin 1"
      example_model] example_fit
  by simp

text \<open>
  Claim C5, as amended. No inference operation compares the length of the feature vector
  with the stored \<open>vocab_size\<close>. On a trained model each of the three raises torch's
  \<open>RuntimeError\<close> exactly when the length differs from \<open>vocab_size\<close> and neither of the
  two is 1; a vector of length 1 (or a vocabulary of one word) is broadcast and no shape
  error is raised, and with a matching length no shape error is raised.
\<close>

theorem inference_shape_errors:
  assumes "fit self features labels delta = (None, m)"
  shows "vocab_size m = Some (ncols features) \<and>
    (estimate_class_posteriors m f = Inl RuntimeError \<longleftrightarrow>
       length f \<noteq> ncols features \<and> length f \<noteq> 1 \<and> ncols features \<noteq> 1) \<and>
    (predict m f = Inl RuntimeError \<longleftrightarrow>
       length f \<noteq> ncols features \<and> length f \<noteq> 1 \<and> ncols features \<noteq> 1) \<and>
    (predict_proba m f = Inl RuntimeError \<longleftrightarrow>
       length f \<noteq> ncols features \<and> length f \<noteq> 1 \<and> ncols features \<noteq> 1)"
proof -
  have post: "estimate_class_posteriors m f = Inl RuntimeError \<longleftrightarrow>
       length f \<noteq> ncols features \<and> length f \<noteq> 1 \<and> ncols features \<noteq> 1"
    using trained_runtime_error[OF assms, of f] by (simp add: broadcasts_def)
  have "predict m f = Inl RuntimeError \<longleftrightarrow> estimate_class_posteriors m f = Inl RuntimeError"
    "predict_proba m f = Inl RuntimeError \<longleftrightarrow> estimate_class_posteriors m f = Inl RuntimeError"
    by (auto simp: trained_predict[OF assms] split: sum.splits)
  then show ?thesis
    using post trained_fields(4)[OF assms] by simp
qed

theorem inference_shape_errors_witness:
  "fit NaiveBayes_init example_features [1, 0] (Fin 1) = (None, example_model) \<and>
   vocab_size example_model = Some 3 \<and>
   predict example_model [Fin 1, Fin 2] = Inl RuntimeError \<and>
   predict example_model [Fin 0, Fin 0, Fin 1] \<noteq> Inl RuntimeError"
  using inference_shape_errors[OF example_fit, of "[Fin 1, Fin 2]"]
    inference_shape_errors[OF example_fit, of "[Fin 0, Fin 0, Fin 1]"] example_fit
  by (simp add: example_features_def)

text \<open>
  The claim as stated fails: the end-to-end model has \<open>vocab_size = 3\<close>, and on a
  feature vector of length 1 all three inference operations return a result.
\<close>

theorem broadcast_feature_counterexample:
  "vocab_size example_model = Some 3 \<and> length [Fin 1] \<noteq> (3::nat) \<and>
   \<not> isl (estimate_class_posteriors example_model [Fin 1]) \<and>
   \<not> isl (predict example_model [Fin 1]) \<and>
   \<not> isl (predict_proba example_model [Fin 1])"
  by (simp add: example_model_eq estimate_class_posteriors_def broadcast_mul_def predict_def
      predict_proba_def falsy_def argmax_def)

text \<open>
  What \<open>predict\<close> does with the vector it gets: whenever \<open>estimate_class_posteriors\<close>
  returns a vector, \<open>predict\<close> returns an index of it whose entry is maximal (in torch's
  order, where \<open>nan\<close> is largest), and every entry before that index is strictly smaller.
\<close>

lemma predict_argmax:
  "(\<forall>v. estimate_class_posteriors m f = Inr v \<longrightarrow>
      (\<exists>k. predict m f = Inr k \<and> k < length v \<and> (\<forall>j < length v. fle (v ! j) (v ! k)) \<and>
           (\<forall>j < k. \<not> fle (v ! k) (v ! j)))) \<and>
   (fit self features labels delta = (None, m) \<and> 1 \<le> Max (set labels) \<and>
    length f = ncols features \<longrightarrow>
      (\<exists>v k. estimate_class_posteriors m f = Inr v \<and> predict m f = Inr k))"
proof -
  have a: "\<exists>k. predict m f = Inr k \<and> k < length v \<and> (\<forall>j < length v. fle (v ! j) (v ! k)) \<and>
           (\<forall>j < k. \<not> fle (v ! k) (v ! j))"
    if p: "estimate_class_posteriors m f = Inr v" for v
  proof -
    have "v \<noteq> []" using posteriors_length[OF p] by auto
    from argmax_spec[OF this] posteriors_not_falsy[OF p] p show ?thesis
      by (simp add: predict_def)
  qed
  have b: "\<exists>v k. estimate_class_posteriors m f = Inr v \<and> predict m f = Inr k"
    if ok: "fit self features labels delta = (None, m)" and two: "1 \<le> Max (set labels)"
      and len: "length f = ncols features"
  proof -
    from trained_posteriors[OF ok two len] obtain v where
      v: "estimate_class_posteriors m f = Inr v" by blast
    with a[OF v] show ?thesis by blast
  qed
  show ?thesis using a b by blast
qed

lemma predict_argmax_example:
  "estimate_class_posteriors example_model [Fin 0, Fin 0, Fin 0] =
     Inr [Fin (ln (1 / 2)), Fin (ln (1 / 2))] \<and>
   predict example_model [Fin 0, Fin 0, Fin 0] = Inr 0"
proof -
  have p: "estimate_class_posteriors example_model [Fin 0, Fin 0, Fin 0] =
     Inr [Fin (ln (1 / 2)), Fin (ln (1 / 2))]"
    by (simp add: example_model_eq estimate_class_posteriors_def broadcast_mul_def)
  show ?thesis
    using predict_argmax[of example_model "[Fin 0, Fin 0, Fin 0]" NaiveBayes_init
        example_features "[1, 0]" "Fin 1"] p
    by (simp add: predict_def argmax_def example_model_eq falsy_def)
qed

text \<open>
  Claim C9 at a failing input. On the model trained on the three classes 0, 1, 2 and the
  feature vector \<open>[1, 1]\<close>, \<open>predict\<close> returns class 0, the first maximum of the two
  entries \<open>estimate_class_posteriors\<close> returns, although the score of class 2 is strictly
  larger than those of classes 0 and 1. On the model trained on the single class 0,
  \<open>predict\<close> raises \<open>KeyError\<close>.
\<close>

theorem predict_misses_third_class:
  "fit NaiveBayes_init three_class_features [0, 1, 2] (Fin 1) = (None, three_class_model) \<and>
   estimate_class_posteriors three_class_model [Fin 1, Fin 1] =
     Inr [stored_score three_class_model 0 [Fin 1, Fin 1],
          stored_score three_class_model 1 [Fin 1, Fin 1]] \<and>
   predict three_class_model [Fin 1, Fin 1] = Inr 0 \<and>
   fle (stored_score three_class_model 0 [Fin 1, Fin 1])
       (stored_score three_class_model 2 [Fin 1, Fin 1]) \<and>
   \<not> fle (stored_score three_class_model 2 [Fin 1, Fin 1])
         (stored_score three_class_model 0 [Fin 1, Fin 1]) \<and>
   predict (snd (fit NaiveBayes_init \<lparr>ncols = 1, rows = [[Fin 1]]\<rparr> [0] (Fin 1))) [Fin 1] =
     Inl KeyError"
proof -
  define a :: real where "a = 11184811 / 2 ^ 24"
  define b :: real where "b = 11184811 / 2 ^ 25"
  have pos: "0 < a" "0 < b" by (simp_all add: a_def b_def)
  have s0: "stored_score three_class_model 0 [Fin 1, Fin 1] = Fin (ln b + (ln a + ln b))"
    and s1: "stored_score three_class_model 1 [Fin 1, Fin 1] = Fin (ln b + (ln b + ln a))"
    and s2: "stored_score three_class_model 2 [Fin 1, Fin 1] = Fin (ln b + (ln (1 / 2) + ln (1 / 2)))"
    unfolding a_def b_def
    by (simp_all add: stored_score_def class_score_def three_class_model_eq)
  have post: "estimate_class_posteriors three_class_model [Fin 1, Fin 1] =
     Inr [Fin (ln b + (ln a + ln b)), Fin (ln b + (ln b + ln a))]"
    unfolding a_def b_def
    by (simp add: three_class_model_eq estimate_class_posteriors_def broadcast_mul_def)
  have nf: "\<not> falsy (class_priors three_class_model)"
    "\<not> falsy (conditional_probabilities three_class_model)"
    by (simp_all add: three_class_model_eq falsy_def)
  have pred: "predict three_class_model [Fin 1, Fin 1] = Inr 0"
    by (simp add: predict_def post argmax_def nf)
  have "ln a + ln b = ln (a * b)"
    using pos by (simp add: ln_mult)
  moreover have "ln (1 / 2) + ln (1 / 2) = ln ((1 / 2) * (1 / 2 :: real))"
    by (subst ln_mult) simp_all
  moreover have "ln (a * b) < ln ((1 / 2) * (1 / 2 :: real))"
    using pos by (subst ln_less_cancel_iff) (simp_all add: a_def b_def)
  ultimately have lt: "ln b + (ln a + ln b) < ln b + (ln (1 / 2) + ln (1 / 2))"
    by linarith
  have single: "predict (snd (fit NaiveBayes_init \<lparr>ncols = 1, rows = [[Fin 1]]\<rparr> [0] (Fin 1))) [Fin 1] =
     Inl KeyError"
    by (simp add: fit_unfold predict_def estimate_class_posteriors_def broadcast_mul_def falsy_def)
  show ?thesis
    using three_class_fit lt single
    by (simp only: post pred s0 s1 s2 fle.simps) simp
qed

text \<open>
  Claim C10. On a model trained on labels with \<open>max(label) \<ge> 1\<close>, \<open>predict\<close> returns
  only 0 or 1 and \<open>predict_proba\<close> only vectors of 2 entries, however many classes the
  labels had. For a feature vector of \<open>vocab_size\<close> entries both return, and the posterior
  vector consists of the scores of class 0 and class 1 and nothing else.
\<close>

theorem two_class_posterior_vector:
  assumes "fit self features labels delta = (None, m)" "1 \<le> Max (set labels)"
  shows "(\<forall>k. predict m f = Inr k \<longrightarrow> k = 0 \<or> k = 1) \<and>
    (\<forall>v. predict_proba m f = Inr v \<longrightarrow> length v = 2) \<and>
    (length f = ncols features \<longrightarrow>
       (\<exists>pr cp p0 p1 v0 v1. class_priors m = Some pr \<and> conditional_probabilities m = Some cp \<and>
          map_of pr 0 = Some p0 \<and> map_of pr 1 = Some p1 \<and>
          map_of cp 0 = Some v0 \<and> map_of cp 1 = Some v1 \<and>
          estimate_class_posteriors m f = Inr [class_score p0 v0 f, class_score p1 v1 f] \<and>
          (\<exists>k < 2. predict m f = Inr k) \<and>
          (\<exists>v. predict_proba m f = Inr v \<and> length v = 2)))"
proof -
  have a: "k = 0 \<or> k = 1" if "predict m f = Inr k" for k
    using that by (auto simp: trained_predict[OF assms(1)] split: sum.splits if_splits)
  have b: "length v = 2" if "predict_proba m f = Inr v" for v
    using that posteriors_length[of m f]
    by (auto simp: trained_predict[OF assms(1)] softmax_length split: sum.splits)
  have c: "\<exists>pr cp p0 p1 v0 v1. class_priors m = Some pr \<and> conditional_probabilities m = Some cp \<and>
          map_of pr 0 = Some p0 \<and> map_of pr 1 = Some p1 \<and>
          map_of cp 0 = Some v0 \<and> map_of cp 1 = Some v1 \<and>
          estimate_class_posteriors m f = Inr [class_score p0 v0 f, class_score p1 v1 f] \<and>
          (\<exists>k < 2. predict m f = Inr k) \<and>
          (\<exists>v. predict_proba m f = Inr v \<and> length v = 2)"
    if len: "length f = ncols features"
  proof -
    from trained_posteriors[OF assms len] obtain p0 p1 v0 v1 where
      s: "map_of (estimate_class_priors labels) 0 = Some p0"
         "map_of (estimate_class_priors labels) 1 = Some p1"
         "map_of (trained_cond features labels delta) 0 = Some v0"
         "map_of (trained_cond features labels delta) 1 = Some v1"
         "estimate_class_posteriors m f = Inr [class_score p0 v0 f, class_score p1 v1 f]"
      by blast
    have "\<exists>k < 2. predict m f = Inr k"
      by (simp add: trained_predict[OF assms(1)] s(5))
    moreover have "\<exists>v. predict_proba m f = Inr v \<and> length v = 2"
      by (simp add: trained_predict[OF assms(1)] s(5) softmax_length)
    ultimately show ?thesis
      using s trained_fields(2,3)[OF assms(1)] by blast
  qed
  show ?thesis using a b c by blast
qed

theorem two_class_posterior_vector_witness:
  "fit NaiveBayes_init three_class_features [0, 1, 2] (Fin 1) = (None, three_class_model) \<and>
   (1::nat) \<le> Max (set [0, 1, 2]) \<and>
   map fst (the (class_priors three_class_model)) = [0, 1, 2] \<and>
   length [Fin 1, Fin 1 :: flt] = ncols three_class_features \<and>
   predict three_class_model [Fin 1, Fin 1] = Inr 0 \<and>
   map_sum id length (predict_proba three_class_model [Fin 1, Fin 1]) = Inr 2"
  using two_class_posterior_vector[OF three_class_fit, of "[Fin 1, Fin 1]"] three_class_fit
  by (simp add: three_class_model_eq three_class_features_def estimate_class_posteriors_def
      broadcast_mul_def predict_def predict_proba_def falsy_def argmax_def softmax_length
      class_score_def fle_refl)

text \<open>
  Claim C1 at a failing input. Trained on the three classes 0, 1, 2, the model holds
  three priors, yet \<open>estimate_class_posteriors\<close> returns two entries, those of classes 0
  and 1; trained on the single class 0, it raises \<open>KeyError\<close>.
\<close>

theorem posteriors_ignore_third_class:
  "fit NaiveBayes_init three_class_features [0, 1, 2] (Fin 1) = (None, three_class_model) \<and>
   map fst (the (class_priors three_class_model)) = [0, 1, 2] \<and>
   estimate_class_posteriors three_class_model [Fin 1, Fin 1] =
     Inr [stored_score three_class_model 0 [Fin 1, Fin 1],
          stored_score three_class_model 1 [Fin 1, Fin 1]] \<and>
   estimate_class_posteriors
     (snd (fit NaiveBayes_init \<lparr>ncols = 1, rows = [[Fin 1]]\<rparr> [0] (Fin 1))) [Fin 1] = Inl KeyError"
  using three_class_fit
  by (simp add: three_class_model_eq estimate_class_posteriors_def broadcast_mul_def fit_unfold
      stored_score_def class_score_def)

text \<open>
  Claim C4. The end-to-end scenario: the vocabulary of the two examples is
  good:0, movie:1, bad:2; \<open>["good", "movie"]\<close> is vectorized to \<open>[1, 1, 0]\<close>; \<open>fit\<close> on the
  two vectors with labels \<open>[1, 0]\<close> and \<open>delta = 1\<close> succeeds with priors 0.5 and 0.5; and
  \<open>predict\<close> on \<open>[0, 0, 1]\<close>, the vector of \<open>["bad"]\<close>, returns class 0.
\<close>

theorem end_to_end:
  "build_vocab [\<lparr>words = [''good'', ''movie''], label = 1\<rparr>,
                \<lparr>words = [''bad'', ''movie''], label = 0\<rparr>] =
     [(''good'', 0), (''movie'', 1), (''bad'', 2)] \<and>
   bag_of_words [''good'', ''movie''] [(''good'', 0), (''movie'', 1), (''bad'', 2)] False =
     Inr [Fin 1, Fin 1, Fin 0] \<and>
   bag_of_words [''bad'', ''movie''] [(''good'', 0), (''movie'', 1), (''bad'', 2)] False =
     Inr [Fin 0, Fin 1, Fin 1] \<and>
   fit NaiveBayes_init \<lparr>ncols = 3, rows = [[Fin 1, Fin 1, Fin 0], [Fin 0, Fin 1, Fin 1]]\<rparr>
     [1, 0] (Fin 1) = (None, example_model) \<and>
   class_priors example_model = Some [(0, Fin (1 / 2)), (1, Fin (1 / 2))] \<and>
   bag_of_words [''bad''] [(''good'', 0), (''movie'', 1), (''bad'', 2)] False =
     Inr [Fin 0, Fin 0, Fin 1] \<and>
   predict example_model [Fin 0, Fin 0, Fin 1] = Inr 0"
proof -
  have vocab: "build_vocab [\<lparr>words = [''good'', ''movie''], label = 1\<rparr>,
                \<lparr>words = [''bad'', ''movie''], label = 0\<rparr>] =
     [(''good'', 0), (''movie'', 1), (''bad'', 2)]"
    by (simp add: build_vocab_def build_vocab_word_def)
  have bow: "bag_of_words [''good'', ''movie''] [(''good'', 0), (''movie'', 1), (''bad'', 2)] False =
     Inr [Fin 1, Fin 1, Fin 0]"
    "bag_of_words [''bad'', ''movie''] [(''good'', 0), (''movie'', 1), (''bad'', 2)] False =
     Inr [Fin 0, Fin 1, Fin 1]"
    "bag_of_words [''bad''] [(''good'', 0), (''movie'', 1), (''bad'', 2)] False =
     Inr [Fin 0, Fin 0, Fin 1]"
    using fadd32_nat[of 0 1] by (simp_all add: bag_of_words_def tensor_index_def)
  have fit: "fit NaiveBayes_init \<lparr>ncols = 3, rows = [[Fin 1, Fin 1, Fin 0], [Fin 0, Fin 1, Fin 1]]\<rparr>
     [1, 0] (Fin 1) = (None, example_model)"
    using example_fit by (simp add: example_features_def)
  have pri: "class_priors example_model = Some [(0, Fin (1 / 2)), (1, Fin (1 / 2))]"
    by (simp add: example_model_eq)
  have post: "estimate_class_posteriors example_model [Fin 0, Fin 0, Fin 1] =
     Inr [Fin (ln (1 / 2) + ln (13421773 / 2 ^ 25)), Fin (ln (1 / 2) + ln (13421773 / 2 ^ 26))]"
    by (simp add: example_model_eq estimate_class_posteriors_def broadcast_mul_def)
  have "ln (13421773 / 2 ^ 26) \<le> ln (13421773 / 2 ^ 25 :: real)"
    by (subst ln_le_cancel_iff) simp_all
  moreover have "\<not> falsy (class_priors example_model)"
    "\<not> falsy (conditional_probabilities example_model)"
    by (simp_all add: example_model_eq falsy_def)
  ultimately have pred: "predict example_model [Fin 0, Fin 0, Fin 1] = Inr 0"
    by (simp add: predict_def post argmax_def)
  show ?thesis
    using vocab bow fit pri pred by simp
qed

end
